theory Spec2Isabelle
  imports Complex_Main "HOL-Library.Sublist" "HOL-Library.Multiset" "HOL-Library.Log_Nat"
begin

section \<open>Python values and errors\<close>

text \<open>
  The evaluation script is Python. Exceptions are modelled as values: a computation that
  may raise returns \<open>py_error + 'a\<close>, with \<open>Inl\<close> the exception. Strings are \<open>char list\<close>.
\<close>

datatype py_error = IndexError | ValueError | RuntimeError

subsection \<open>String primitives used by the script\<close>

text \<open>\<^verbatim>\<open>sub in s\<close>: substring containment, case-sensitive.\<close>

fun contains :: "'a list \<Rightarrow> 'a list \<Rightarrow> bool" where
  "contains sub [] = (sub = [])"
| "contains sub (c # cs) = (prefix sub (c # cs) \<or> contains sub cs)"

text \<open>
  \<^verbatim>\<open>s.replace(old, '')\<close>: one left-to-right pass deleting the non-overlapping occurrences of
  \<open>old\<close>. With an empty \<open>old\<close> and an empty replacement Python returns \<open>s\<close> unchanged.
\<close>

function replace_del :: "'a list \<Rightarrow> 'a list \<Rightarrow> 'a list" where
  "replace_del old [] = []"
| "replace_del old (c # cs) =
     (if old \<noteq> [] \<and> prefix old (c # cs)
      then replace_del old (drop (length old - 1) cs)
      else c # replace_del old cs)"
  by pat_completeness auto
termination
  by (relation "measure (\<lambda>(old, s). length s)") auto

text \<open>
  \<^verbatim>\<open>s.split(sep)\<close>: the pieces between the non-overlapping occurrences of \<open>sep\<close>, found left
  to right; an empty separator raises \<^verbatim>\<open>ValueError\<close>. \<open>split_from sep cur s\<close> scans \<open>s\<close> with
  \<open>cur\<close> the piece collected so far.
\<close>

function split_from :: "'a list \<Rightarrow> 'a list \<Rightarrow> 'a list \<Rightarrow> 'a list list" where
  "split_from sep cur [] = [cur]"
| "split_from sep cur (c # cs) =
     (if sep \<noteq> [] \<and> prefix sep (c # cs)
      then cur # split_from sep [] (drop (length sep - 1) cs)
      else split_from sep (cur @ [c]) cs)"
  by pat_completeness auto
termination
  by (relation "measure (\<lambda>(sep, cur, s). length s)") auto

definition py_split :: "'a list \<Rightarrow> 'a list \<Rightarrow> py_error + 'a list list" where
  "py_split s sep = (if sep = [] then Inl ValueError else Inr (split_from sep [] s))"

text \<open>\<^verbatim>\<open>xs[1]\<close> on a list: \<^verbatim>\<open>IndexError\<close> when there is no second element.\<close>

definition item1 :: "'a list \<Rightarrow> py_error + 'a" where
  "item1 xs = (if 1 < length xs then Inr (xs ! 1) else Inl IndexError)"

text \<open>\<^verbatim>\<open>text.split(Q)[1]\<close>, the expression every evaluation routine applies to the output.\<close>

definition split_after :: "string \<Rightarrow> string \<Rightarrow> py_error + string" where
  "split_after text Q = (case py_split text Q of Inl e \<Rightarrow> Inl e | Inr parts \<Rightarrow> item1 parts)"

section \<open>Question formatter\<close>

datatype model_family = Llama | Phi3

definition format_Q_llama :: "string \<Rightarrow> string" where
  "format_Q_llama Q =
     ''<|start_header_id|>user<|end_header_id|> '' @ Q @ ''<|eot_id|>''
       @ ''<|start_header_id|>assistant<|end_header_id|>''"

definition format_Q_phi3 :: "string \<Rightarrow> string" where
  "format_Q_phi3 Q =
     ''<|user|>'' @ [CHR 0x0A] @ Q @ ''<|end|>'' @ [CHR 0x0A] @ ''<|assistant|>'' @ [CHR 0x0A]"

definition prune_for_llama :: "string \<Rightarrow> string" where
  "prune_for_llama S =
     (let S = replace_del ''<|eot_id|>'' S;
          S = replace_del ''<|start_header_id|>assistant<|end_header_id|>'' S;
          S = replace_del ''<|start_header_id|>user<|end_header_id|>'' S;
          S = replace_del ''<|end_of_text|>'' S
      in S)"

definition prune_for_phi3 :: "string \<Rightarrow> string" where
  "prune_for_phi3 S =
     (let S = replace_del ''<|end|>'' S;
          S = replace_del ''<|assistant|>'' S;
          S = replace_del ''<|user|>'' S
      in S)"

text \<open>The two dispatch tables \<^verbatim>\<open>model_question_format_mapping\<close> and
  \<^verbatim>\<open>model_prune_format_mapping\<close>, keyed by the model class.\<close>

fun model_question_format_mapping :: "model_family \<Rightarrow> string \<Rightarrow> string" where
  "model_question_format_mapping Llama = format_Q_llama"
| "model_question_format_mapping Phi3 = format_Q_phi3"

fun model_prune_format_mapping :: "model_family \<Rightarrow> string \<Rightarrow> string" where
  "model_prune_format_mapping Llama = prune_for_llama"
| "model_prune_format_mapping Phi3 = prune_for_phi3"

section \<open>Generation driver\<close>

text \<open>
  The keyword arguments of one \<^verbatim>\<open>model.generate\<close> call, in the order the source writes them.
  \<open>InputIds s\<close> and \<open>AttentionMask s\<close> stand for the two tensors the tokenizer collaborator
  returns for the prompt \<open>s\<close>.
\<close>

datatype 'kb kwarg =
    InputIds string
  | AttentionMask string
  | KbKvs "'kb option"
  | IntArg int
  | BoolArg bool
  | StrArg string
  | TokenizerArg

type_synonym 'kb kwargs = "(string \<times> 'kb kwarg) list"

text \<open>
  \<^verbatim>\<open>answer_question\<close> up to its call of the generator: the prompt is formatted, the two local
  variables \<^verbatim>\<open>dynamic_sparsify\<close> and \<^verbatim>\<open>kb_scale_factor\<close> are computed, and
  \<^verbatim>\<open>model.generate\<close> is called with the six keyword arguments below.
  \<^verbatim>\<open>topk_size\<close> defaults to \<^verbatim>\<open>None\<close>, \<^verbatim>\<open>kb_scale_factor\<close> to \<open>-1\<close>.
\<close>

definition answer_question_kwargs ::
  "model_family \<Rightarrow> string \<Rightarrow> 'kb option \<Rightarrow> int \<Rightarrow> int option \<Rightarrow> int \<Rightarrow> 'kb kwargs" where
  "answer_question_kwargs model Q kb kb_layer_frequency topk_size kb_scale_factor =
     (let input_str = model_question_format_mapping model Q;
          dynamic_sparsify = (if topk_size \<noteq> Some (- 1) then True else False);
          kb_scale_factor = (if kb_scale_factor = - 1 then None else Some kb_scale_factor)
      in [(''input_ids'', InputIds input_str),
          (''attention_mask'', AttentionMask input_str),
          (''kb_kvs'', KbKvs kb),
          (''max_new_tokens'', IntArg 150),
          (''tokenizer'', TokenizerArg),
          (''output_attentions'', BoolArg True)])"

text \<open>
  The generator collaborator \<open>generate\<close> maps the keyword arguments to the decoded output
  (\<^verbatim>\<open>model.generate(...)\<close> followed by \<^verbatim>\<open>tokenizer.decode\<close>); the driver prunes it.
\<close>

definition answer_question ::
  "('kb kwargs \<Rightarrow> string) \<Rightarrow> model_family \<Rightarrow> string \<Rightarrow> 'kb option \<Rightarrow> int \<Rightarrow> int option \<Rightarrow> int
     \<Rightarrow> string" where
  "answer_question generate model Q kb kb_layer_frequency topk_size kb_scale_factor =
     (let outputs = generate (answer_question_kwargs model Q kb kb_layer_frequency topk_size
                                kb_scale_factor)
      in model_prune_format_mapping model outputs)"

section \<open>Answer extraction and generation evaluation\<close>

record kb_row =
  kb_name :: string
  kb_description_type :: string
  kb_description :: string
  kb_key_string :: string
  kb_Q :: string
  kb_A :: string

datatype eval_mode = KB | ICL | ZeroShot

definition instruction_prompts :: string where
  \<open>instruction_prompts =
     ''\<newline>Please answer questions based on the given text with format: "The {property} of {name} is {description}"\<newline>''\<close>

definition instruction_prompts_multi_entities :: string where
  \<open>instruction_prompts_multi_entities =
     ''\<newline>Please answer questions based on the given text with format: "The {property} of {name1} is {description}; The {property} of {name2} is {description}; ..."\<newline>''\<close>

definition zero_shot_prompt :: string where
  \<open>zero_shot_prompt =
     ''\<newline>Please answer the question in a very compact manner with format: The {property} of {name} is {description}\<newline>''\<close>

definition zero_shot_prompt_multi_entities :: string where
  \<open>zero_shot_prompt_multi_entities =
     ''\<newline>Please answer the question in a very compact manner with format: "The {property} of {name1} is {description}; The {property} of {name2} is {description}; ...\<newline>''\<close>

subsection \<open>The two multi-entity patterns\<close>

text \<open>
  \<^verbatim>\<open>re.findall(r'(?:is|are) (.*?)(?:\.|;)', s)\<close> and \<^verbatim>\<open>re.findall(r'(?:is|are) (.*?);', s)\<close>.
  Both patterns start with \<^verbatim>\<open>is \<close> or \<^verbatim>\<open>are \<close>, then a lazy group of characters other than a
  newline, then a terminator; they differ in the terminator only, which is the parameter
  \<open>t\<close>. \<open>is_are_head\<close> is the length of the matched head, \<open>lazy_group\<close> the shortest group
  that is followed by a terminator. The scan resumes after the end of each match.
\<close>

definition is_are_head :: "string \<Rightarrow> nat option" where
  "is_are_head s =
     (if prefix ''is '' s then Some 3 else if prefix ''are '' s then Some 4 else None)"

fun lazy_group :: "(char \<Rightarrow> bool) \<Rightarrow> string \<Rightarrow> string option" where
  "lazy_group t [] = None"
| "lazy_group t (c # cs) =
     (if t c then Some []
      else if c = CHR 0x0A then None
      else map_option ((#) c) (lazy_group t cs))"

function findall_is_are :: "(char \<Rightarrow> bool) \<Rightarrow> string \<Rightarrow> string list" where
  "findall_is_are t [] = []"
| "findall_is_are t (c # cs) =
     (case is_are_head (c # cs) of
        None \<Rightarrow> findall_is_are t cs
      | Some h \<Rightarrow>
          (case lazy_group t (drop h (c # cs)) of
             None \<Rightarrow> findall_is_are t cs
           | Some g \<Rightarrow> g # findall_is_are t (drop (h + length g) cs)))"
  by pat_completeness auto
termination
  by (relation "measure (\<lambda>(t, s). length s)") auto

definition dot_or_semicolon :: "char \<Rightarrow> bool" where
  "dot_or_semicolon c = (c = CHR ''.'' \<or> c = CHR '';'')"

definition semicolon :: "char \<Rightarrow> bool" where
  "semicolon c = (c = CHR '';'')"

text \<open>\<^verbatim>\<open>sep.join(xs)\<close>.\<close>

fun py_join :: "string \<Rightarrow> string list \<Rightarrow> string" where
  "py_join sep [] = []"
| "py_join sep [x] = x"
| "py_join sep (x # y # ys) = x @ sep @ py_join sep (y # ys)"

text \<open>The normalisation of the model output and of the reference answer in a multi-entity
  trial (the two assignments in the \<^verbatim>\<open>else\<close> branch of \<^verbatim>\<open>perform_eval\<close>).\<close>

definition multi_entity_prediction :: "string \<Rightarrow> string" where
  "multi_entity_prediction model_output =
     (let matches = findall_is_are dot_or_semicolon model_output in py_join ''; '' matches)"

definition multi_entity_reference :: "string \<Rightarrow> string" where
  "multi_entity_reference answer = py_join '';'' (findall_is_are semicolon answer)"

subsection \<open>perform\_eval\<close>

text \<open>
  What \<^verbatim>\<open>perform_eval\<close> is given and what it calls: the generator collaborator, the model
  family, the KB embedding returned by the retriever, the flags, and three library
  functions that are not part of the script: \<open>cfg_draws i\<close> is the index array that
  \<^verbatim>\<open>np.random.randint(0, len(test_kb), multi_entites)\<close> returns in iteration \<open>i\<close>,
  \<open>cfg_multi_entity_qa\<close> is \<^verbatim>\<open>generate_multi_entity_qa\<close>, and \<open>cfg_search_description\<close> is
  group 1 of \<^verbatim>\<open>re.search(r'The\s+\w+\s+of\s+[^"]+\s+is\s+(.+)', \<cdot>)\<close>, \<open>None\<close> without a match.
\<close>

record 'kb eval_config =
  cfg_generate :: "'kb kwargs \<Rightarrow> string"
  cfg_model :: model_family
  cfg_kb_embedding :: 'kb
  cfg_eval_mode :: eval_mode
  cfg_kb_layer_frequency :: int
  cfg_topk_size :: int
  cfg_kb_scale_factor :: int
  cfg_multi_entites :: int
  cfg_remove_sorry :: bool
  cfg_draws :: "nat \<Rightarrow> nat list"
  cfg_multi_entity_qa :: "string list \<Rightarrow> string list \<Rightarrow> string list \<Rightarrow> string \<times> string"
  cfg_search_description :: "string \<Rightarrow> string option"

text \<open>
  The lists the loop appends to. \<open>st_asked\<close> is the trace of the prompts passed to
  \<^verbatim>\<open>answer_question\<close>, one per call; \<open>st_model_outputs\<close> and \<open>st_answers\<close> are the predictions and
  references handed to the metric collaborators (ROUGE, BERTScore).
\<close>

record eval_state =
  st_model_outputs :: "string list"
  st_answers :: "string list"
  st_full_outputs :: "(string \<times> string) list"
  st_asked :: "string list"

definition eval_question :: "'kb eval_config \<Rightarrow> kb_row list \<Rightarrow> nat \<Rightarrow> kb_row \<Rightarrow> string \<times> string" where
  "eval_question c test_kb i row =
     (if cfg_multi_entites c = - 1 then (kb_Q row, kb_A row)
      else
        (let kb_subset_idx = cfg_draws c i
         in cfg_multi_entity_qa c
              (map (\<lambda>j. kb_name (test_kb ! j)) kb_subset_idx)
              (map (\<lambda>j. kb_description_type (test_kb ! j)) kb_subset_idx)
              (map (\<lambda>j. kb_description (test_kb ! j)) kb_subset_idx)))"

definition eval_prompt :: "'kb eval_config \<Rightarrow> string \<Rightarrow> string \<Rightarrow> string" where
  "eval_prompt c prompt_strs Q =
     (case cfg_eval_mode c of
        KB \<Rightarrow> Q
      | ICL \<Rightarrow>
          (if cfg_multi_entites c \<noteq> - 1 then instruction_prompts_multi_entities
           else instruction_prompts) @ prompt_strs @ Q
      | ZeroShot \<Rightarrow>
          (if cfg_multi_entites c \<noteq> - 1 then zero_shot_prompt_multi_entities
           else zero_shot_prompt) @ Q)"

text \<open>The call of \<^verbatim>\<open>answer_question\<close>: only the \<^verbatim>\<open>kb\<close> mode passes the embedding,
  \<^verbatim>\<open>topk_size\<close> and \<^verbatim>\<open>kb_scale_factor\<close>; the other modes leave the defaults.\<close>

definition eval_answer :: "'kb eval_config \<Rightarrow> string \<Rightarrow> string" where
  "eval_answer c prompt =
     (case cfg_eval_mode c of
        KB \<Rightarrow> answer_question (cfg_generate c) (cfg_model c) prompt (Some (cfg_kb_embedding c))
               (cfg_kb_layer_frequency c) (Some (cfg_topk_size c)) (cfg_kb_scale_factor c)
      | _ \<Rightarrow> answer_question (cfg_generate c) (cfg_model c) prompt None
               (cfg_kb_layer_frequency c) None (- 1))"

text \<open>One iteration of the loop over \<^verbatim>\<open>test_kb[:subset_size]\<close>.\<close>

definition eval_row ::
  "'kb eval_config \<Rightarrow> kb_row list \<Rightarrow> string \<Rightarrow> nat \<Rightarrow> kb_row \<Rightarrow> eval_state \<Rightarrow> py_error + eval_state"
  where
  "eval_row c test_kb prompt_strs i row st =
     (case eval_question c test_kb i row of (Q, answer) \<Rightarrow>
        (let prompt = eval_prompt c prompt_strs Q;
             st = st\<lparr>st_asked := st_asked st @ [prompt]\<rparr>
         in case split_after (eval_answer c prompt) Q of
              Inl e \<Rightarrow> Inl e
            | Inr model_output \<Rightarrow>
                if cfg_remove_sorry c \<and> contains ''sorry'' model_output then Inr st
                else
                  (let st = st\<lparr>st_full_outputs := st_full_outputs st @ [(model_output, answer)]\<rparr>
                   in if cfg_multi_entites c = - 1 then
                        Inr (st\<lparr>st_answers := st_answers st @ [kb_description row],
                                st_model_outputs := st_model_outputs st @
                                  [case cfg_search_description c model_output of
                                     Some g \<Rightarrow> g | None \<Rightarrow> model_output]\<rparr>)
                      else
                        Inr (st\<lparr>st_answers := st_answers st @ [multi_entity_reference answer],
                                st_model_outputs := st_model_outputs st @
                                  [multi_entity_prediction model_output]\<rparr>))))"

fun eval_loop ::
  "'kb eval_config \<Rightarrow> kb_row list \<Rightarrow> string \<Rightarrow> nat \<Rightarrow> kb_row list \<Rightarrow> eval_state \<Rightarrow> py_error + eval_state"
  where
  "eval_loop c test_kb prompt_strs i [] st = Inr st"
| "eval_loop c test_kb prompt_strs i (row # rows) st =
     (case eval_row c test_kb prompt_strs i row st of
        Inl e \<Rightarrow> Inl e
      | Inr st' \<Rightarrow> eval_loop c test_kb prompt_strs (Suc i) rows st')"

definition kb_prompt_strs :: "kb_row list \<Rightarrow> string" where
  "kb_prompt_strs test_kb =
     concat (map (\<lambda>row. kb_key_string row @ '' is '' @ kb_description row @ ''; '') test_kb)"

text \<open>
  \<^verbatim>\<open>perform_eval\<close> up to the metric calls. \<open>kb_idx\<close> is the array drawn by
  \<^verbatim>\<open>np.random.randint(0, len(dataset), kb_size)\<close>: \<open>kb_size\<close> indices below the dataset size.
\<close>

definition perform_eval :: "'kb eval_config \<Rightarrow> kb_row list \<Rightarrow> nat list \<Rightarrow> py_error + eval_state" where
  "perform_eval c dataset kb_idx =
     (let test_kb = map (\<lambda>idx. dataset ! idx) kb_idx;
          prompt_strs = kb_prompt_strs test_kb;
          subset_size = min 400 (length test_kb)
      in eval_loop c test_kb prompt_strs 0 (take subset_size test_kb)
           \<lparr>st_model_outputs = [], st_answers = [], st_full_outputs = [], st_asked = []\<rparr>)"

section \<open>Python floats\<close>

text \<open>
  A Python float is an IEEE-754 binary64 number, and every float operation returns its
  exact result rounded to the nearest binary64 value, ties to the even significand. A
  finite float is modelled by the rational it denotes, and \<open>fl64\<close> is that rounding:
  \<open>floor_log2 x\<close> is the binary exponent of a positive \<open>x\<close>, the significand has 53 bits,
  and below \<open>2 powi -1022\<close> the spacing stays that of the subnormal numbers. Results beyond
  the binary64 range (about \<open>1.8e308\<close>) are not modelled.
\<close>

definition round_half_even :: "rat \<Rightarrow> int" where
  "round_half_even y =
     (let f = \<lfloor>y\<rfloor>; d = y - of_int f
      in if d < 1 / 2 then f else if 1 / 2 < d then f + 1 else if even f then f else f + 1)"

definition floor_log2 :: "rat \<Rightarrow> int" where
  "floor_log2 x =
     (case quotient_of x of
        (p, q) \<Rightarrow> (let e = bitlen p - bitlen q in if 2 powi e \<le> x then e else e - 1))"

definition fl64 :: "rat \<Rightarrow> rat" where
  "fl64 x =
     (if x = 0 then 0
      else
        (let e = max (floor_log2 \<bar>x\<bar>) (- 1022);
             u = 2 powi (e - 52)
         in sgn x * of_int (round_half_even (\<bar>x\<bar> / u)) * u))"

text \<open>
  The float expressions of the script: \<^verbatim>\<open>1 - x\<close> and \<^verbatim>\<open>n * x\<close> for an integer \<open>n\<close> (which is
  converted to a float first) and a float \<open>x\<close>; \<open>py_int\<close> is \<^verbatim>\<open>int(x)\<close>, which truncates
  towards zero.
\<close>

definition one_minus_float :: "rat \<Rightarrow> rat" where
  "one_minus_float x = fl64 (1 - x)"

definition int_times_float :: "int \<Rightarrow> rat \<Rightarrow> rat" where
  "int_times_float n x = fl64 (fl64 (of_int n) * x)"

definition py_int :: "rat \<Rightarrow> int" where
  "py_int x = (if 0 \<le> x then \<lfloor>x\<rfloor> else \<lceil>x\<rceil>)"

text \<open>
  A float array holds values of the type \<open>f64\<close>, whose addition rounds. The order is that of
  the values (the arrays are assumed free of NaN).
\<close>

datatype f64 = F64 (f64_value: rat)

instantiation f64 :: linorder
begin

definition less_eq_f64 :: "f64 \<Rightarrow> f64 \<Rightarrow> bool" where
  "less_eq_f64 x y = (f64_value x \<le> f64_value y)"

definition less_f64 :: "f64 \<Rightarrow> f64 \<Rightarrow> bool" where
  "less_f64 x y = (f64_value x < f64_value y)"

instance
  by standard (auto simp: less_eq_f64_def less_f64_def f64.expand)

end

instantiation f64 :: "{plus, zero}"
begin

definition plus_f64 :: "f64 \<Rightarrow> f64 \<Rightarrow> f64" where
  "plus_f64 x y = F64 (fl64 (f64_value x + f64_value y))"

definition zero_f64 :: f64 where
  "zero_f64 = F64 0"

instance ..

end

section \<open>Refusal protocol\<close>

text \<open>
  \<^verbatim>\<open>outlier_ratio\<close> is a Python float: the definitions below first take the binary64 value
  nearest to the given rational (the value itself when it is a float) and then compute as
  the source does, in float arithmetic. \<open>slice_to k xs\<close> is \<^verbatim>\<open>xs[:k]\<close>, where a negative \<open>k\<close>
  counts from the end; \<open>py_repeat x k\<close> is \<^verbatim>\<open>[x] * k\<close>.
\<close>

definition slice_to :: "int \<Rightarrow> 'a list \<Rightarrow> 'a list" where
  "slice_to k xs = (if 0 \<le> k then take (nat k) xs else take (length xs - nat (- k)) xs)"

definition py_repeat :: "'a \<Rightarrow> int \<Rightarrow> 'a list" where
  "py_repeat x k = replicate (nat k) x"

text \<open>
  The sampling part of \<^verbatim>\<open>perform_eval_refusal\<close>. \<open>n\<close> is \<^verbatim>\<open>len(kb_retriever.dataset)\<close>,
  \<open>kb_idx\<close> the array drawn by \<^verbatim>\<open>np.random.randint(0, n, kb_size)\<close>, and \<open>shuffle\<close> the
  rearrangement \<^verbatim>\<open>np.random.shuffle\<close> performs. Each definition rebinds
  \<^verbatim>\<open>question_size = min(kb_size, question_size)\<close> as the source does before its use.
\<close>

definition refusal_outlier_idx ::
  "nat \<Rightarrow> nat list \<Rightarrow> (nat list \<Rightarrow> nat list) \<Rightarrow> int \<Rightarrow> int \<Rightarrow> rat \<Rightarrow> nat list" where
  "refusal_outlier_idx n kb_idx shuffle kb_size question_size outlier_ratio =
     (let outlier_idx = [0..<n];
          outlier_idx = filter (\<lambda>i. i \<notin> set kb_idx) outlier_idx;
          outlier_idx = shuffle outlier_idx;
          outlier_ratio = fl64 outlier_ratio;
          question_size = min kb_size question_size
      in slice_to (py_int (int_times_float question_size outlier_ratio)) outlier_idx)"

definition refusal_change_point :: "int \<Rightarrow> int \<Rightarrow> rat \<Rightarrow> int" where
  "refusal_change_point kb_size question_size outlier_ratio =
     (let outlier_ratio = fl64 outlier_ratio;
          question_size = min kb_size question_size
      in py_int (int_times_float question_size (one_minus_float outlier_ratio)))"

definition refusal_test_kb ::
  "kb_row list \<Rightarrow> nat list \<Rightarrow> (nat list \<Rightarrow> nat list) \<Rightarrow> int \<Rightarrow> int \<Rightarrow> rat \<Rightarrow> kb_row list" where
  "refusal_test_kb dataset kb_idx shuffle kb_size question_size outlier_ratio =
     (let test_kb = map (\<lambda>idx. dataset ! idx) kb_idx;
          outlier_idx = refusal_outlier_idx (length dataset) kb_idx shuffle kb_size question_size
                          outlier_ratio;
          outlier_ratio = fl64 outlier_ratio;
          question_size = min kb_size question_size
      in slice_to (py_int (int_times_float question_size (one_minus_float outlier_ratio))) test_kb
           @ map (\<lambda>idx. dataset ! idx) outlier_idx)"

definition refusal_true_label :: "int \<Rightarrow> int \<Rightarrow> rat \<Rightarrow> int list" where
  "refusal_true_label kb_size question_size outlier_ratio =
     (let change_point = refusal_change_point kb_size question_size outlier_ratio;
          outlier_ratio = fl64 outlier_ratio;
          question_size = min kb_size question_size
      in py_repeat 0 change_point
           @ py_repeat 1 (py_int (int_times_float question_size outlier_ratio)))"

definition refusal_instruction_prompts :: string where
  \<open>refusal_instruction_prompts =
     ''Please answer questions based on the given text with format: "The {property} of {name} is {description}", if relevant information cannot be found in the text, please respond "I am sorry I cannot find relevant information in the KB".''\<close>

definition refusal_zero_shot_prompt :: string where
  \<open>refusal_zero_shot_prompt =
     ''\<newline>    Please answer the question in a very compact manner with format: The {property} of {name} is {description}\<newline>    ''\<close>

record 'kb refusal_config =
  rcfg_generate :: "'kb kwargs \<Rightarrow> string"
  rcfg_model :: model_family
  rcfg_kb_embedding :: 'kb
  rcfg_eval_mode :: eval_mode
  rcfg_kb_layer_frequency :: int
  rcfg_topk_size :: int
  rcfg_kb_scale_factor :: int
  rcfg_shuffle :: "nat list \<Rightarrow> nat list"

definition refusal_answer :: "'kb refusal_config \<Rightarrow> string \<Rightarrow> string \<Rightarrow> string" where
  "refusal_answer c prompt_strs Q =
     (case rcfg_eval_mode c of
        KB \<Rightarrow> answer_question (rcfg_generate c) (rcfg_model c) Q (Some (rcfg_kb_embedding c))
               (rcfg_kb_layer_frequency c) (Some (rcfg_topk_size c)) (rcfg_kb_scale_factor c)
      | ICL \<Rightarrow> answer_question (rcfg_generate c) (rcfg_model c)
               (refusal_instruction_prompts @ prompt_strs @ Q) None
               (rcfg_kb_layer_frequency c) None (- 1)
      | ZeroShot \<Rightarrow> answer_question (rcfg_generate c) (rcfg_model c)
               (refusal_zero_shot_prompt @ Q) None
               (rcfg_kb_layer_frequency c) None (- 1))"

text \<open>The loop \<^verbatim>\<open>for i, row in enumerate(test_kb)\<close>; the state is the pair
  \<open>(model_outputs, answers)\<close>.\<close>

fun refusal_loop ::
  "'kb refusal_config \<Rightarrow> string \<Rightarrow> int \<Rightarrow> nat \<Rightarrow> kb_row list \<Rightarrow> string list \<times> string list
     \<Rightarrow> py_error + string list \<times> string list" where
  "refusal_loop c prompt_strs change_point i [] st = Inr st"
| "refusal_loop c prompt_strs change_point i (row # rows) (outs, answers) =
     (let Q = kb_Q row
      in case split_after (refusal_answer c prompt_strs Q) Q of
           Inl e \<Rightarrow> Inl e
         | Inr model_output \<Rightarrow>
             refusal_loop c prompt_strs change_point (Suc i) rows
               (outs @ [model_output],
                answers @ [if int i < change_point then kb_description row
                           else ''Cannot find relevant information in the KB'']))"

definition refusal_prediction :: "string list \<Rightarrow> int list" where
  "refusal_prediction outs = map (\<lambda>model_output. if contains ''sorry'' model_output then 1 else 0) outs"

text \<open>
  \<^verbatim>\<open>np.array([prediction, true_label])\<close>: a 2\<times>N integer array when the two lists have the same
  length. With lists of different lengths NumPy builds no 2\<times>N array: releases since 1.24
  raise \<^verbatim>\<open>ValueError\<close> (inhomogeneous shape), which is what the model returns.
\<close>

definition np_array2 :: "int list \<Rightarrow> int list \<Rightarrow> py_error + int list \<times> int list" where
  "np_array2 xs ys = (if length xs = length ys then Inr (xs, ys) else Inl ValueError)"

definition refusal_results_text :: "string list \<Rightarrow> string list \<Rightarrow> string" where
  "refusal_results_text outs answers =
     concat (map (\<lambda>(a, A). ''Model output: '' @ a @ [CHR 0x0A] @ ''True answer: '' @ A
                            @ [CHR 0x0A] @ ''-------'' @ [CHR 0x0A])
                 (zip outs answers))"

definition perform_eval_refusal ::
  "'kb refusal_config \<Rightarrow> kb_row list \<Rightarrow> nat list \<Rightarrow> int \<Rightarrow> int \<Rightarrow> rat
     \<Rightarrow> py_error + string \<times> int list \<times> int list" where
  "perform_eval_refusal c dataset kb_idx kb_size question_size outlier_ratio =
     (let prompt_strs = kb_prompt_strs (map (\<lambda>idx. dataset ! idx) kb_idx);
          test_kb = refusal_test_kb dataset kb_idx (rcfg_shuffle c) kb_size question_size
                      outlier_ratio;
          change_point = refusal_change_point kb_size question_size outlier_ratio
      in case refusal_loop c prompt_strs change_point 0 test_kb ([], []) of
           Inl e \<Rightarrow> Inl e
         | Inr (outs, answers) \<Rightarrow>
             (let true_label = refusal_true_label kb_size question_size outlier_ratio;
                  prediction = refusal_prediction outs
              in case np_array2 prediction true_label of
                   Inl e \<Rightarrow> Inl e
                 | Inr arr \<Rightarrow> Inr (refusal_results_text outs answers, arr)))"

section \<open>Attention retrieval accuracy\<close>

subsection \<open>Choice of the knowledge-base subset\<close>

text \<open>
  The three-way branch of \<^verbatim>\<open>eval_accuracy\<close> on \<^verbatim>\<open>kb_size\<close>. \<open>n\<close> is \<^verbatim>\<open>len(dataset)\<close>.
  \<^verbatim>\<open>np.random.choice(n, kb_size, replace=False)\<close> returns \<^verbatim>\<open>permutation(n)[:kb_size]\<close>, and
  raises \<^verbatim>\<open>ValueError\<close> for a negative size; \<open>perm\<close> is the permutation of \<open>[0..<n]\<close> the
  random generator produces.
\<close>

definition dataset_subset_idx :: "nat \<Rightarrow> int \<Rightarrow> nat list \<Rightarrow> py_error + nat list" where
  "dataset_subset_idx n kb_size perm =
     (if kb_size = int n then Inr [0..<n]
      else if kb_size > int n then Inl IndexError
      else if kb_size < 0 then Inl ValueError
      else Inr (take (nat kb_size) perm))"

subsection \<open>Scoring one layer\<close>

text \<open>
  A NumPy array: its shape and its elements in row-major order. The element type has an
  order and an addition, of which nothing is assumed: for a float array the addition
  rounds (type \<open>f64\<close>).
\<close>

record 'a ndarray =
  nd_shape :: "nat list"
  nd_flat :: "'a list"

text \<open>\<^verbatim>\<open>arr[..., :k]\<close>: the first \<open>k\<close> entries of every row of the last axis; a
  zero-dimensional array cannot be indexed.\<close>

definition truncate_last_axis :: "nat \<Rightarrow> 'a ndarray \<Rightarrow> py_error + 'a ndarray" where
  "truncate_last_axis k arr =
     (case rev (nd_shape arr) of
        [] \<Rightarrow> Inl IndexError
      | K' # ds \<Rightarrow>
          Inr \<lparr>nd_shape = rev ds @ [min K' k],
               nd_flat = concat (map (\<lambda>r. map (\<lambda>j. nd_flat arr ! (r * K' + j)) [0..<min K' k])
                                     [0..<prod_list ds])\<rparr>)"

text \<open>\<^verbatim>\<open>arr.reshape(B, -1, K)\<close>: the middle dimension is inferred from the size; NumPy raises
  \<^verbatim>\<open>ValueError\<close> when \<open>B * K\<close> is zero or does not divide the size.\<close>

definition reshape_middle :: "nat \<Rightarrow> nat \<Rightarrow> 'a ndarray \<Rightarrow> py_error + 'a ndarray" where
  "reshape_middle B K arr =
     (let total = length (nd_flat arr)
      in if B * K = 0 \<or> total mod (B * K) \<noteq> 0 then Inl ValueError
         else Inr \<lparr>nd_shape = [B, total div (B * K), K], nd_flat = nd_flat arr\<rparr>)"

text \<open>A reduction \<^verbatim>\<open>sum\<close> over the values along one axis: they are added one after the
  other in the element type, starting from the first; an empty axis gives zero.\<close>

fun np_sum :: "('a::{plus,zero}) list \<Rightarrow> 'a" where
  "np_sum [] = 0"
| "np_sum (x # xs) = foldl (+) x xs"

text \<open>\<^verbatim>\<open>weight.sum(1)\<close> of an array of shape \<open>[B, H, K]\<close>: one score vector per batch element.\<close>

definition sum_axis1 :: "('a::{plus,zero}) ndarray \<Rightarrow> 'a list list" where
  "sum_axis1 arr =
     (case nd_shape arr of
        [B, H, K] \<Rightarrow>
          map (\<lambda>b. map (\<lambda>k. np_sum (map (\<lambda>h. nd_flat arr ! ((b * H + h) * K + k)) [0..<H]))
                        [0..<K])
              [0..<B]
      | _ \<Rightarrow> [])"

text \<open>\<^verbatim>\<open>argmax\<close>: the index of the first occurrence of the maximum. \<open>argmax_from\<close> scans the
  rest of the row with the best index and value so far.\<close>

fun argmax_from :: "nat \<Rightarrow> ('a::linorder) \<Rightarrow> nat \<Rightarrow> 'a list \<Rightarrow> nat" where
  "argmax_from best v i [] = best"
| "argmax_from best v i (x # xs) =
     (if v < x then argmax_from i x (Suc i) xs else argmax_from best v (Suc i) xs)"

fun argmax :: "('a::linorder) list \<Rightarrow> nat" where
  "argmax [] = 0"
| "argmax (x # xs) = argmax_from 0 x 1 xs"

text \<open>\<^verbatim>\<open>.mean()\<close> of a Boolean vector: the float quotient of the count by the length.\<close>

definition mean_bool :: "bool list \<Rightarrow> rat" where
  "mean_bool bs = fl64 (of_nat (length (filter (\<lambda>b. b) bs)) / of_nat (length bs))"

text \<open>
  The body of the loop over the layers in \<^verbatim>\<open>eval_accuracy\<close>, for the artifact \<open>loaded\<close> that
  \<^verbatim>\<open>np.load\<close> returns. \<open>topk5\<close> is the index part of \<^verbatim>\<open>torch.topk(\<cdot>, 5)\<close> on one row;
  \<^verbatim>\<open>torch.topk\<close> raises \<^verbatim>\<open>RuntimeError\<close> when the row has fewer than five entries.
\<close>

definition score_attention ::
  "(('a::{linorder,plus,zero}) list \<Rightarrow> nat list) \<Rightarrow> 'a ndarray \<Rightarrow> nat \<Rightarrow> nat \<Rightarrow> py_error + rat \<times> rat"
  where
  "score_attention topk5 loaded kb_size test_batch_size =
     (case truncate_last_axis kb_size loaded of
        Inl e \<Rightarrow> Inl e
      | Inr weight \<Rightarrow>
          (let label = [0..<test_batch_size]
           in case reshape_middle test_batch_size kb_size weight of
                Inl e \<Rightarrow> Inl e
              | Inr weight \<Rightarrow>
                  (let acc = mean_bool (map (\<lambda>(s, l). argmax s = l) (zip (sum_axis1 weight) label))
                   in if kb_size < 5 then Inl RuntimeError
                      else
                        (let top_5_predictions = map topk5 (sum_axis1 weight);
                             top_5_acc = mean_bool (map (\<lambda>(p, l). l \<in> set p)
                                                        (zip top_5_predictions label))
                         in Inr (acc, top_5_acc)))))"

subsection \<open>eval\_accuracy\<close>

text \<open>\<^verbatim>\<open>range(0, 32, step)\<close>.\<close>

definition layer_range :: "int \<Rightarrow> py_error + nat list" where
  "layer_range step =
     (if step = 0 then Inl ValueError
      else if step < 0 then Inr []
      else Inr (filter (\<lambda>i. int i mod step = 0) [0..<32]))"

fun score_layers ::
  "(('a::{linorder,plus,zero}) list \<Rightarrow> nat list) \<Rightarrow> (nat \<Rightarrow> 'a ndarray) \<Rightarrow> nat \<Rightarrow> nat \<Rightarrow> nat list
     \<Rightarrow> py_error + (rat \<times> rat) list" where
  "score_layers topk5 load kb_size test_batch_size [] = Inr []"
| "score_layers topk5 load kb_size test_batch_size (idx # idxs) =
     (case score_attention topk5 (load idx) kb_size test_batch_size of
        Inl e \<Rightarrow> Inl e
      | Inr acc \<Rightarrow>
          (case score_layers topk5 load kb_size test_batch_size idxs of
             Inl e \<Rightarrow> Inl e
           | Inr accs \<Rightarrow> Inr (acc # accs)))"

text \<open>
  \<^verbatim>\<open>eval_accuracy\<close> from the choice of the subset on. \<open>generate_and_save idxs\<close> is the one
  call of \<^verbatim>\<open>model.generate\<close> with \<^verbatim>\<open>save_attention_weights=True\<close>, seen through the files it
  writes: it maps a layer index to the array \<^verbatim>\<open>np.load\<close> reads back. The second component
  of the result counts the calls of \<^verbatim>\<open>model.generate\<close> made. Building the prompts reads
  \<^verbatim>\<open>dataset_subset[i]\<close> for \<open>i < test_batch_size\<close>.
\<close>

definition eval_accuracy ::
  "(('a::{linorder,plus,zero}) list \<Rightarrow> nat list) \<Rightarrow> (nat list \<Rightarrow> nat \<Rightarrow> 'a ndarray) \<Rightarrow> nat \<Rightarrow> int
     \<Rightarrow> nat list \<Rightarrow> nat \<Rightarrow> int \<Rightarrow> (py_error + (rat \<times> rat) list) \<times> nat" where
  "eval_accuracy topk5 generate_and_save n kb_size perm test_batch_size kb_layer_frequency =
     (let kb_layer_frequency = (if kb_layer_frequency = - 1 then 3 else kb_layer_frequency)
      in case dataset_subset_idx n kb_size perm of
           Inl e \<Rightarrow> (Inl e, 0)
         | Inr idxs \<Rightarrow>
             if length idxs < test_batch_size then (Inl IndexError, 0)
             else
               (let load = generate_and_save idxs
                in case layer_range kb_layer_frequency of
                     Inl e \<Rightarrow> (Inl e, 1)
                   | Inr layers \<Rightarrow>
                       (score_layers topk5 load (nat kb_size) test_batch_size layers, 1)))"

section \<open>Auxiliary notions and sample inputs\<close>

text \<open>\<open>first_max xs j\<close>: position \<open>j\<close> holds the maximum of \<open>xs\<close> and no earlier position
  does. It characterises \<open>argmax\<close>.\<close>

definition first_max :: "('a::linorder) list \<Rightarrow> nat \<Rightarrow> bool" where
  "first_max xs j = (j < length xs \<and> (\<forall>k<length xs. xs ! k \<le> xs ! j) \<and> (\<forall>k<j. xs ! k < xs ! j))"

text \<open>
  The scoring step in the spec's words. \<open>truncated_entry loaded K' kb_size n\<close> is entry \<open>n\<close>,
  in row-major order, of the artifact with last axis \<open>K'\<close> after its last axis is cut to
  \<open>kb_size\<close> columns; \<open>score_vector loaded K' kb_size H i\<close> is the sum over the middle axis of
  batch row \<open>i\<close> once the cut array is regrouped as \<open>[B, H, kb_size]\<close>.
\<close>

definition truncated_entry :: "'a ndarray \<Rightarrow> nat \<Rightarrow> nat \<Rightarrow> nat \<Rightarrow> 'a" where
  "truncated_entry loaded K' kb_size n =
     nd_flat loaded ! ((n div min K' kb_size) * K' + n mod min K' kb_size)"

definition score_vector :: "('a::{plus,zero}) ndarray \<Rightarrow> nat \<Rightarrow> nat \<Rightarrow> nat \<Rightarrow> nat \<Rightarrow> 'a list" where
  "score_vector loaded K' kb_size H i =
     map (\<lambda>k. np_sum (map (\<lambda>h. truncated_entry loaded K' kb_size ((i * H + h) * kb_size + k))
                          [0..<H]))
         [0..<kb_size]"

text \<open>
  For an artifact of shape \<open>ds @ [K']\<close>: whether \<^verbatim>\<open>reshape(B, -1, kb_size)\<close> of the cut array
  is possible, and the middle dimension it infers. \<open>head_row loaded H K' b h\<close> is row \<open>(b, h)\<close>
  of an artifact of shape \<open>[B, H, K']\<close>, and \<open>strict_peak xs j\<close> says that entry \<open>j\<close> of \<open>xs\<close>
  is larger than every other entry.
\<close>

definition reshapeable :: "nat list \<Rightarrow> nat \<Rightarrow> nat \<Rightarrow> nat \<Rightarrow> bool" where
  "reshapeable ds K' kb_size B =
     (B * kb_size \<noteq> 0 \<and> (prod_list ds * min K' kb_size) mod (B * kb_size) = 0)"

definition middle_axis :: "nat list \<Rightarrow> nat \<Rightarrow> nat \<Rightarrow> nat \<Rightarrow> nat" where
  "middle_axis ds K' kb_size B = prod_list ds * min K' kb_size div (B * kb_size)"

definition head_row :: "'a ndarray \<Rightarrow> nat \<Rightarrow> nat \<Rightarrow> nat \<Rightarrow> nat \<Rightarrow> 'a list" where
  "head_row loaded H K' b h = map (\<lambda>k. nd_flat loaded ! ((b * H + h) * K' + k)) [0..<K']"

definition strict_peak :: "('a::linorder) list \<Rightarrow> nat \<Rightarrow> bool" where
  "strict_peak xs j =
     (j < length xs \<and> list_all (\<lambda>k. k = j \<or> xs ! k < xs ! j) [0..<length xs])"

text \<open>The marker strings each family's pruning deletes, in the order of the \<^verbatim>\<open>replace\<close>
  calls. \<open>overlap m b\<close>: a proper non-empty suffix of \<open>m\<close> is a prefix of \<open>b\<close>, so that an
  occurrence of \<open>m\<close> could end inside \<open>b\<close> after starting before it.\<close>

fun prune_markers :: "model_family \<Rightarrow> string list" where
  "prune_markers Llama =
     [''<|eot_id|>'', ''<|start_header_id|>assistant<|end_header_id|>'',
      ''<|start_header_id|>user<|end_header_id|>'', ''<|end_of_text|>'']"
| "prune_markers Phi3 = [''<|end|>'', ''<|assistant|>'', ''<|user|>'']"

fun overlap :: "'a list \<Rightarrow> 'a list \<Rightarrow> bool" where
  "overlap [] b = False"
| "overlap (x # xs) b = ((xs \<noteq> [] \<and> prefix xs b) \<or> overlap xs b)"

text \<open>The extracted output of a single-entity row, and whether the row is kept for
  scoring (\<^verbatim>\<open>remove_sorry\<close> drops the outputs that contain \<^verbatim>\<open>sorry\<close>).\<close>

definition row_output :: "'kb eval_config \<Rightarrow> string \<Rightarrow> kb_row \<Rightarrow> py_error + string" where
  "row_output c prompt_strs row =
     split_after (eval_answer c (eval_prompt c prompt_strs (kb_Q row))) (kb_Q row)"

definition row_scored :: "'kb eval_config \<Rightarrow> string \<Rightarrow> kb_row \<Rightarrow> bool" where
  "row_scored c prompt_strs row =
     (case row_output c prompt_strs row of
        Inl e \<Rightarrow> False
      | Inr model_output \<Rightarrow> \<not> (cfg_remove_sorry c \<and> contains ''sorry'' model_output))"

text \<open>A knowledge-base row, and generators for the sample runs: one that answers without
  repeating the prompt, and one that returns the prompt followed by a fixed reply, as a
  causal language model does.\<close>

definition france :: kb_row where
  "france = \<lparr>kb_name = ''France'', kb_description_type = ''capital'', kb_description = ''Paris'',
             kb_key_string = ''the capital of France'', kb_Q = ''Capital of France?'',
             kb_A = ''The capital of France is Paris''\<rparr>"

definition generate_reply_only :: "string \<Rightarrow> unit kwargs \<Rightarrow> string" where
  "generate_reply_only reply kw = reply"

definition generate_echo :: "string \<Rightarrow> unit kwargs \<Rightarrow> string" where
  "generate_echo reply kw =
     (case map_of kw ''input_ids'' of Some (InputIds s) \<Rightarrow> s @ reply | _ \<Rightarrow> reply)"

text \<open>The sample replies below do not contain the word \<^verbatim>\<open>The\<close>, so the single-entity
  pattern finds no match in them.\<close>

definition no_match :: "string \<Rightarrow> string option" where
  "no_match s = None"

definition no_draws :: "nat \<Rightarrow> nat list" where
  "no_draws i = []"

definition no_multi_entity_qa :: "string list \<Rightarrow> string list \<Rightarrow> string list \<Rightarrow> string \<times> string" where
  "no_multi_entity_qa names properties descriptions = ([], [])"

definition sample_config :: "(unit kwargs \<Rightarrow> string) \<Rightarrow> bool \<Rightarrow> unit eval_config" where
  "sample_config g rs =
     \<lparr>cfg_generate = g, cfg_model = Llama, cfg_kb_embedding = (), cfg_eval_mode = KB,
      cfg_kb_layer_frequency = 3, cfg_topk_size = - 1, cfg_kb_scale_factor = - 1,
      cfg_multi_entites = - 1, cfg_remove_sorry = rs, cfg_draws = no_draws,
      cfg_multi_entity_qa = no_multi_entity_qa, cfg_search_description = no_match\<rparr>"

definition sample_refusal_config :: "(unit kwargs \<Rightarrow> string) \<Rightarrow> unit refusal_config" where
  "sample_refusal_config g =
     \<lparr>rcfg_generate = g, rcfg_model = Llama, rcfg_kb_embedding = (), rcfg_eval_mode = KB,
      rcfg_kb_layer_frequency = 3, rcfg_topk_size = - 1, rcfg_kb_scale_factor = 100,
      rcfg_shuffle = rev\<rparr>"

text \<open>An attention artifact of shape \<open>[B, H, K]\<close> whose row \<open>(b, h)\<close> is 1 in column \<open>b\<close> and
  0 elsewhere, and a top-5 selection (the five largest, earlier index first among equals).\<close>

definition diagonal_artifact :: "nat \<Rightarrow> nat \<Rightarrow> nat \<Rightarrow> f64 ndarray" where
  "diagonal_artifact B H K =
     \<lparr>nd_shape = [B, H, K],
      nd_flat = concat (map (\<lambda>b. concat (map (\<lambda>h. map (\<lambda>k. if k = b then F64 1 else F64 0)
                                                       [0..<K])
                                              [0..<H]))
                            [0..<B])\<rparr>"

definition topk5_sample :: "f64 list \<Rightarrow> nat list" where
  "topk5_sample xs =
     take 5 (map snd (sort_key (\<lambda>(v, i). - f64_value v) (zip xs [0..<length xs])))"

text \<open>
  A float artifact of shape \<open>[2, 2, 5]\<close>. Both head rows of batch row 0 peak in column 0.
  The head rows of batch row 1 are \<open>2\<^sup>-\<^sup>5\<^sup>2, 1.5 \<cdot> 2\<^sup>-\<^sup>5\<^sup>2, 0, 0, 0\<close> and
  \<open>4 - 2\<^sup>-\<^sup>5\<^sup>1, 4, 0, 0, 0\<close>: both peak strictly in column 1, and all entries are binary64
  values.
\<close>

definition tie_artifact :: "f64 ndarray" where
  "tie_artifact =
     \<lparr>nd_shape = [2, 2, 5],
      nd_flat = map F64
        [1, 0, 0, 0, 0,
         1, 0, 0, 0, 0,
         1 / 4503599627370496, 3 / 9007199254740992, 0, 0, 0,
         9007199254740991 / 2251799813685248, 4, 0, 0, 0]\<rparr>"

text \<open>A generator run that stores the same diagonal artifact for every layer.\<close>

definition diagonal_run :: "nat list \<Rightarrow> nat \<Rightarrow> f64 ndarray" where
  "diagonal_run idxs layer = diagonal_artifact 5 2 5"

section \<open>Properties of the string primitives\<close>

lemma contains_iff_sublist: "contains sub s = sublist sub s"
  by (induction s) (auto simp: sublist_Cons_right)

lemma contains_middle: "contains sub (a @ sub @ b)"
  unfolding contains_iff_sublist by (rule sublist_appendI)

lemma replace_del_hit:
  "old \<noteq> [] \<and> prefix old (c # cs) \<Longrightarrow>
   replace_del old (c # cs) = replace_del old (drop (length old - 1) cs)"
  by simp

lemma replace_del_pass:
  "\<not> (old \<noteq> [] \<and> prefix old (c # cs)) \<Longrightarrow> replace_del old (c # cs) = c # replace_del old cs"
  by (cases "old = []") auto

text \<open>A character that does not occur in the marker cuts the string into two parts that
  are pruned independently.\<close>

lemma replace_del_sep:
  "c \<notin> set old \<Longrightarrow> replace_del old (x @ c # y) = replace_del old x @ c # replace_del old y"
proof (induction old x rule: replace_del.induct)
  case (1 old)
  then show ?case by (auto simp: prefix_Cons)
next
  case (2 old a as)
  show ?case
  proof (cases "old \<noteq> [] \<and> prefix old (a # as)")
    case True
    then have p: "prefix old (a # (as @ c # y))" by (metis prefix_prefix append_Cons)
    from True have len: "length old \<le> length (a # as)" by (auto dest: prefix_length_le)
    then have d: "drop (length old - 1) (as @ c # y) = drop (length old - 1) as @ c # y"
      by simp
    have "replace_del old ((a # as) @ c # y) = replace_del old (drop (length old - 1) (as @ c # y))"
      using replace_del_hit[of old a "as @ c # y"] True p by simp
    also have "\<dots> = replace_del old (drop (length old - 1) as) @ c # replace_del old y"
      using 2(1)[OF True 2(3)] d by simp
    also have "\<dots> = replace_del old (a # as) @ c # replace_del old y"
      using replace_del_hit[OF True] by simp
    finally show ?thesis .
  next
    case False
    have np: "\<not> (old \<noteq> [] \<and> prefix old (a # (as @ c # y)))"
    proof
      assume h: "old \<noteq> [] \<and> prefix old (a # (as @ c # y))"
      then have "prefix old ((a # as) @ c # y)" by simp
      then have "prefix old (a # as) \<or> (\<exists>us. old = (a # as) @ us \<and> prefix us (c # y))"
        by (simp only: prefix_append)
      with False h obtain us where us: "old = (a # as) @ us" "prefix us (c # y)" by blast
      with False have "us \<noteq> []" by auto
      with us have "c \<in> set old" by (cases us) (auto)
      with 2 show False by simp
    qed
    have "replace_del old ((a # as) @ c # y) = a # replace_del old (as @ c # y)"
      using replace_del_pass[OF np] by simp
    also have "\<dots> = a # (replace_del old as @ c # replace_del old y)"
      using 2(2)[OF False 2(3)] by simp
    also have "\<dots> = replace_del old (a # as) @ c # replace_del old y"
      using replace_del_pass[OF False] by simp
    finally show ?thesis .
  qed
qed

lemma split_from_miss: "\<not> contains sep s \<Longrightarrow> split_from sep cur s = [cur @ s]"
  by (induction s arbitrary: cur) auto

lemma split_after_miss: "\<not> contains Q out \<Longrightarrow> split_after out Q = Inl IndexError"
proof -
  assume miss: "\<not> contains Q out"
  have "Q \<noteq> []"
  proof
    assume "Q = []"
    then have "contains Q out" by (cases out) simp_all
    with miss show False by simp
  qed
  then show ?thesis
    by (simp add: split_after_def py_split_def item1_def split_from_miss[OF miss])
qed

lemma contains_appendI1: "contains m q \<Longrightarrow> contains m (q @ c)"
  unfolding contains_iff_sublist by (metis sublist_append)

lemma contains_appendI2: "contains m c \<Longrightarrow> contains m (q @ c)"
  unfolding contains_iff_sublist by (metis sublist_append)

lemma replace_del_absent: "\<not> contains m s \<Longrightarrow> replace_del m s = s"
  by (induction s) (auto)

lemma replace_del_length: "length (replace_del m s) \<le> length s"
proof (induction m s rule: replace_del.induct)
  case (1 old)
  then show ?case by simp
next
  case (2 old c cs)
  show ?case
  proof (cases "old \<noteq> [] \<and> prefix old (c # cs)")
    case True
    have "length (replace_del old (drop (length old - 1) cs)) \<le> length (drop (length old - 1) cs)"
      by (rule 2(1)[OF True])
    also have "\<dots> \<le> length cs" by simp
    finally show ?thesis using replace_del_hit[OF True] by simp
  next
    case False
    from 2(2)[OF False] replace_del_pass[OF False] show ?thesis by simp
  qed
qed

lemma replace_del_shorter:
  "m \<noteq> [] \<Longrightarrow> contains m s \<Longrightarrow> length (replace_del m s) < length s"
proof (induction s)
  case Nil
  then show ?case by simp
next
  case (Cons c cs)
  show ?case
  proof (cases "prefix m (c # cs)")
    case True
    with Cons.prems(1) have h: "m \<noteq> [] \<and> prefix m (c # cs)" by simp
    have "length (replace_del m (drop (length m - 1) cs)) \<le> length (drop (length m - 1) cs)"
      by (rule replace_del_length)
    also have "\<dots> \<le> length cs" by simp
    finally show ?thesis using replace_del_hit[OF h] by simp
  next
    case False
    with Cons.prems(2) have "contains m cs" by simp
    from Cons.IH[OF Cons.prems(1) this] replace_del_pass[of m c cs] False show ?thesis by simp
  qed
qed

lemma overlap_suffix:
  "p \<noteq> [] \<Longrightarrow> us \<noteq> [] \<Longrightarrow> prefix us b \<Longrightarrow> overlap (p @ us) b"
proof (induction p)
  case Nil
  then show ?case by simp
next
  case (Cons x p)
  then show ?case by (cases "p = []") simp_all
qed

text \<open>A text without the marker, followed by a text that no occurrence can run into, is
  left alone.\<close>

lemma replace_del_keep:
  "m \<noteq> [] \<Longrightarrow> \<not> contains m q \<Longrightarrow> \<not> overlap m b \<Longrightarrow> replace_del m (q @ b) = q @ replace_del m b"
proof (induction q)
  case Nil
  then show ?case by simp
next
  case (Cons a q)
  from Cons.prems(2) have np: "\<not> prefix m (a # q)" and nc: "\<not> contains m q" by simp_all
  have "\<not> prefix m ((a # q) @ b)"
  proof
    assume "prefix m ((a # q) @ b)"
    then have "prefix m (a # q) \<or> (\<exists>us. m = (a # q) @ us \<and> prefix us b)"
      by (simp only: prefix_append)
    with np obtain us where us: "m = (a # q) @ us" "prefix us b" by blast
    with np have "us \<noteq> []" by auto
    from overlap_suffix[OF _ this us(2), of "a # q"] us(1) Cons.prems(3) show False by simp
  qed
  then have "replace_del m ((a # q) @ b) = a # replace_del m (q @ b)"
    using replace_del_pass[of m a "q @ b"] by simp
  with Cons.IH[OF Cons.prems(1) nc Cons.prems(3)] show ?case by simp
qed

lemma prune_as_fold:
  "model_prune_format_mapping model S = foldl (\<lambda>s m. replace_del m s) S (prune_markers model)"
  by (cases model) (simp_all add: prune_for_llama_def prune_for_phi3_def Let_def)

lemma fold_replace_length: "length (foldl (\<lambda>s m. replace_del m s) S ms) \<le> length S"
proof (induction ms arbitrary: S)
  case Nil
  then show ?case by simp
next
  case (Cons m ms)
  have "length (foldl (\<lambda>s m. replace_del m s) (replace_del m S) ms) \<le> length (replace_del m S)"
    by (rule Cons.IH)
  also have "\<dots> \<le> length S" by (rule replace_del_length)
  finally show ?case by simp
qed

lemma fold_replace_absent:
  "\<forall>m\<in>set ms. \<not> contains m S \<Longrightarrow> foldl (\<lambda>s m. replace_del m s) S ms = S"
  by (induction ms) (simp_all add: replace_del_absent)

lemma fold_replace_shorter:
  "\<forall>m\<in>set ms. m \<noteq> [] \<Longrightarrow> \<exists>m\<in>set ms. contains m S \<Longrightarrow>
   length (foldl (\<lambda>s m. replace_del m s) S ms) < length S"
proof (induction ms)
  case Nil
  then show ?case by simp
next
  case (Cons m ms)
  show ?case
  proof (cases "contains m S")
    case True
    have "length (foldl (\<lambda>s m. replace_del m s) (replace_del m S) ms) \<le> length (replace_del m S)"
      by (rule fold_replace_length)
    also have "\<dots> < length S" using Cons.prems(1) True by (simp add: replace_del_shorter)
    finally show ?thesis by simp
  next
    case False
    with Cons.prems(2) have "\<exists>m\<in>set ms. contains m S" by simp
    moreover from Cons.prems(1) have "\<forall>m\<in>set ms. m \<noteq> []" by simp
    ultimately have "length (foldl (\<lambda>s m. replace_del m s) S ms) < length S" by (rule Cons.IH[rotated])
    with False show ?thesis by (simp add: replace_del_absent)
  qed
qed

lemma prune_markers_nonempty: "\<forall>m\<in>set (prune_markers model). m \<noteq> []"
  by (cases model) simp_all

lemma prune_identity_iff:
  "(model_prune_format_mapping model S = S) = (\<forall>m\<in>set (prune_markers model). \<not> contains m S)"
proof
  assume eq: "model_prune_format_mapping model S = S"
  show "\<forall>m\<in>set (prune_markers model). \<not> contains m S"
  proof (rule ccontr)
    assume "\<not> (\<forall>m\<in>set (prune_markers model). \<not> contains m S)"
    then have "\<exists>m\<in>set (prune_markers model). contains m S" by blast
    from fold_replace_shorter[OF prune_markers_nonempty this] eq show False
      by (simp add: prune_as_fold)
  qed
next
  assume "\<forall>m\<in>set (prune_markers model). \<not> contains m S"
  then show "model_prune_format_mapping model S = S"
    by (simp only: prune_as_fold fold_replace_absent)
qed

section \<open>Question formatter: format, then prune\<close>

lemma prune_format_llama:
  assumes "\<forall>m\<in>set (prune_markers Llama). \<not> contains m (Q @ C)"
  shows "prune_for_llama (format_Q_llama Q @ C) = CHR '' '' # Q @ C"
proof -
  let ?U = "''<|start_header_id|>user<|end_header_id|>''"
  let ?E = "''<|eot_id|>''"
  let ?A = "''<|start_header_id|>assistant<|end_header_id|>''"
  let ?T = "''<|end_of_text|>''"
  from assms have qc: "\<not> contains ?E (Q @ C)" "\<not> contains ?A (Q @ C)"
    "\<not> contains ?U (Q @ C)" "\<not> contains ?T (Q @ C)"
    by simp_all
  from qc have q: "\<not> contains ?E Q" "\<not> contains ?A Q"
    by (blast dest: contains_appendI1)+
  from qc have c: "\<not> contains ?E C" "\<not> contains ?A C"
    by (blast dest: contains_appendI2)+
  have f: "format_Q_llama Q @ C = ?U @ CHR '' '' # (Q @ ?E @ ?A @ C)"
    by (simp add: format_Q_llama_def)
  have s1: "replace_del ?E (format_Q_llama Q @ C) = ?U @ CHR '' '' # (Q @ ?A @ C)"
  proof -
    have "replace_del ?E (format_Q_llama Q @ C) =
          replace_del ?E ?U @ CHR '' '' # replace_del ?E (Q @ ?E @ ?A @ C)"
      unfolding f by (rule replace_del_sep) simp
    also have "replace_del ?E (Q @ ?E @ ?A @ C) = Q @ replace_del ?E (?E @ ?A @ C)"
      by (rule replace_del_keep) (use q in simp_all)
    also have "replace_del ?E (?E @ ?A @ C) = ?A @ replace_del ?E C" by simp
    also have "replace_del ?E C = C" using c(1) by (rule replace_del_absent)
    also have "replace_del ?E ?U = ?U" by simp
    finally show ?thesis .
  qed
  have s2: "replace_del ?A (?U @ CHR '' '' # (Q @ ?A @ C)) = ?U @ CHR '' '' # (Q @ C)"
  proof -
    have "replace_del ?A (?U @ CHR '' '' # (Q @ ?A @ C)) =
          replace_del ?A ?U @ CHR '' '' # replace_del ?A (Q @ ?A @ C)"
      by (rule replace_del_sep) simp
    also have "replace_del ?A (Q @ ?A @ C) = Q @ replace_del ?A (?A @ C)"
      by (rule replace_del_keep) (use q in simp_all)
    also have "replace_del ?A (?A @ C) = replace_del ?A C" by simp
    also have "replace_del ?A C = C" using c(2) by (rule replace_del_absent)
    also have "replace_del ?A ?U = ?U" by simp
    finally show ?thesis .
  qed
  have s3: "replace_del ?U (?U @ CHR '' '' # (Q @ C)) = CHR '' '' # (Q @ C)"
  proof -
    have "replace_del ?U (?U @ CHR '' '' # (Q @ C)) =
          replace_del ?U ?U @ CHR '' '' # replace_del ?U (Q @ C)"
      by (rule replace_del_sep) simp
    also have "replace_del ?U (Q @ C) = Q @ C" using qc(3) by (rule replace_del_absent)
    also have "replace_del ?U ?U = []" by simp
    finally show ?thesis by simp
  qed
  have s4: "replace_del ?T (CHR '' '' # (Q @ C)) = CHR '' '' # (Q @ C)"
    by (rule replace_del_absent) (use qc(4) in simp)
  show ?thesis
    unfolding prune_for_llama_def Let_def s1 s2 s3 s4 by simp
qed

lemma prune_format_phi3:
  assumes "\<forall>m\<in>set (prune_markers Phi3). \<not> contains m Q \<and> \<not> contains m C"
  shows "prune_for_phi3 (format_Q_phi3 Q @ C) = CHR 0x0A # Q @ [CHR 0x0A, CHR 0x0A] @ C"
proof -
  let ?U = "''<|user|>''"
  let ?E = "''<|end|>''"
  let ?A = "''<|assistant|>''"
  let ?n = "CHR 0x0A"
  from assms have q: "\<not> contains ?E Q" "\<not> contains ?A Q" "\<not> contains ?U Q"
    by simp_all
  from assms have c: "\<not> contains ?E C" "\<not> contains ?A C" "\<not> contains ?U C"
    by simp_all
  have f: "format_Q_phi3 Q @ C = ?U @ ?n # (Q @ ?E @ ?n # (?A @ ?n # C))"
    by (simp add: format_Q_phi3_def)
  have s1: "replace_del ?E (format_Q_phi3 Q @ C) = ?U @ ?n # (Q @ ?n # (?A @ ?n # C))"
  proof -
    have "replace_del ?E (format_Q_phi3 Q @ C) =
          replace_del ?E ?U @ ?n # replace_del ?E (Q @ ?E @ ?n # (?A @ ?n # C))"
      unfolding f by (rule replace_del_sep) simp
    also have "replace_del ?E (Q @ ?E @ ?n # (?A @ ?n # C))
               = Q @ replace_del ?E (?E @ ?n # (?A @ ?n # C))"
      by (rule replace_del_keep) (use q in simp_all)
    also have "replace_del ?E (?E @ ?n # (?A @ ?n # C)) = ?n # (?A @ ?n # replace_del ?E C)"
      by simp
    also have "replace_del ?E C = C" using c(1) by (rule replace_del_absent)
    also have "replace_del ?E ?U = ?U" by simp
    finally show ?thesis .
  qed
  have s2: "replace_del ?A (?U @ ?n # (Q @ ?n # (?A @ ?n # C))) = ?U @ ?n # (Q @ ?n # ?n # C)"
  proof -
    have "replace_del ?A (?U @ ?n # (Q @ ?n # (?A @ ?n # C))) =
          replace_del ?A ?U @ ?n # replace_del ?A (Q @ ?n # (?A @ ?n # C))"
      by (rule replace_del_sep) simp
    also have "replace_del ?A (Q @ ?n # (?A @ ?n # C)) = Q @ replace_del ?A (?n # (?A @ ?n # C))"
      by (rule replace_del_keep) (use q in simp_all)
    also have "replace_del ?A (?n # (?A @ ?n # C)) = ?n # ?n # replace_del ?A C" by simp
    also have "replace_del ?A C = C" using c(2) by (rule replace_del_absent)
    also have "replace_del ?A ?U = ?U" by simp
    finally show ?thesis .
  qed
  have s3: "replace_del ?U (?U @ ?n # (Q @ ?n # ?n # C)) = ?n # (Q @ ?n # ?n # C)"
  proof -
    have "replace_del ?U (?U @ ?n # (Q @ ?n # ?n # C)) =
          replace_del ?U ?U @ ?n # replace_del ?U (Q @ ?n # ?n # C)"
      by (rule replace_del_sep) simp
    also have "replace_del ?U (Q @ ?n # ?n # C) = Q @ replace_del ?U (?n # ?n # C)"
      by (rule replace_del_keep) (use q in simp_all)
    also have "replace_del ?U (?n # ?n # C) = ?n # ?n # replace_del ?U C" by simp
    also have "replace_del ?U C = C" using c(3) by (rule replace_del_absent)
    also have "replace_del ?U ?U = []" by simp
    finally show ?thesis by simp
  qed
  show ?thesis
    unfolding prune_for_phi3_def Let_def s1 s2 s3 by simp
qed

text \<open>
  C9, as the code has it. Pruning deletes the occurrences of the family's marker strings,
  one marker after the other, wherever they stand: in the prompt, in the question or in
  the text the model wrote. It leaves a string unchanged exactly when the string contains
  none of the markers. So the round trip holds for the questions that contain none of the
  family's markers: formatting such a question \<open>Q\<close> and pruning the result gives a string
  that contains \<open>Q\<close>, a space followed by \<open>Q\<close> for llama, and \<open>Q\<close> between one and two
  newlines for phi3. With a generated text \<open>C\<close> after the prompt, pruning gives the same
  followed by \<open>C\<close> unchanged, provided that no marker occurs in \<open>Q @ C\<close> for llama (where the
  two are adjacent after pruning), and none in \<open>Q\<close> and none in \<open>C\<close> for phi3.
\<close>

theorem format_prune_round_trip:
  "((\<forall>m\<in>set (prune_markers model). \<not> contains m Q) \<longrightarrow>
       contains Q (model_prune_format_mapping model (model_question_format_mapping model Q))
     \<and> model_prune_format_mapping model (model_question_format_mapping model Q)
         = (case model of Llama \<Rightarrow> CHR '' '' # Q | Phi3 \<Rightarrow> CHR 0x0A # Q @ [CHR 0x0A, CHR 0x0A]))
   \<and> ((\<forall>m\<in>set (prune_markers Llama). \<not> contains m (Q @ C)) \<longrightarrow>
        prune_for_llama (format_Q_llama Q @ C) = CHR '' '' # Q @ C)
   \<and> ((\<forall>m\<in>set (prune_markers Phi3). \<not> contains m Q \<and> \<not> contains m C) \<longrightarrow>
        prune_for_phi3 (format_Q_phi3 Q @ C) = CHR 0x0A # Q @ [CHR 0x0A, CHR 0x0A] @ C)
   \<and> model_prune_format_mapping model S
       = foldl (\<lambda>s m. replace_del m s) S (prune_markers model)
   \<and> (model_prune_format_mapping model S = S)
       = (\<forall>m\<in>set (prune_markers model). \<not> contains m S)"
proof (intro conjI impI)
  assume h: "\<forall>m\<in>set (prune_markers model). \<not> contains m Q"
  have v: "model_prune_format_mapping model (model_question_format_mapping model Q)
         = (case model of Llama \<Rightarrow> [CHR '' ''] @ Q @ []
            | Phi3 \<Rightarrow> [CHR 0x0A] @ Q @ [CHR 0x0A, CHR 0x0A])"
  proof (cases model)
    case Llama
    with h have "\<forall>m\<in>set (prune_markers Llama). \<not> contains m (Q @ [])" by simp
    from prune_format_llama[OF this] Llama show ?thesis by simp
  next
    case Phi3
    have e: "\<not> contains m []" if "m \<in> set (prune_markers Phi3)" for m
      using that by auto
    with h Phi3 have "\<forall>m\<in>set (prune_markers Phi3). \<not> contains m Q \<and> \<not> contains m []" by blast
    from prune_format_phi3[OF this] Phi3 show ?thesis by simp
  qed
  show "contains Q (model_prune_format_mapping model (model_question_format_mapping model Q))"
    unfolding v by (cases model) (simp_all only: model_family.case contains_middle)
  show "model_prune_format_mapping model (model_question_format_mapping model Q)
         = (case model of Llama \<Rightarrow> CHR '' '' # Q | Phi3 \<Rightarrow> CHR 0x0A # Q @ [CHR 0x0A, CHR 0x0A])"
    unfolding v by (cases model) simp_all
next
  assume "\<forall>m\<in>set (prune_markers Llama). \<not> contains m (Q @ C)"
  then show "prune_for_llama (format_Q_llama Q @ C) = CHR '' '' # Q @ C"
    by (rule prune_format_llama)
next
  assume "\<forall>m\<in>set (prune_markers Phi3). \<not> contains m Q \<and> \<not> contains m C"
  then show "prune_for_phi3 (format_Q_phi3 Q @ C) = CHR 0x0A # Q @ [CHR 0x0A, CHR 0x0A] @ C"
    by (rule prune_format_phi3)
next
  show "model_prune_format_mapping model S
       = foldl (\<lambda>s m. replace_del m s) S (prune_markers model)"
    by (rule prune_as_fold)
next
  show "(model_prune_format_mapping model S = S)
       = (\<forall>m\<in>set (prune_markers model). \<not> contains m S)"
    by (rule prune_identity_iff)
qed

text \<open>Two questions that contain the character \<^verbatim>\<open><\<close>, and even parts of markers, but no
  marker.\<close>

theorem format_prune_round_trip_witness:
  "contains ''Is 3 < 5?''
        (model_prune_format_mapping Phi3 (model_question_format_mapping Phi3 ''Is 3 < 5?''))
   \<and> prune_for_llama (format_Q_llama ''a <| b |> c <|eot_id c'' @ ''Yes.'')
       = '' a <| b |> c <|eot_id cYes.''"
proof -
  have h1: "\<forall>m\<in>set (prune_markers Phi3). \<not> contains m ''Is 3 < 5?''"
    by code_simp
  have h2: "\<forall>m\<in>set (prune_markers Llama). \<not> contains m (''a <| b |> c <|eot_id c'' @ ''Yes.'')"
    by code_simp
  note th = format_prune_round_trip[of Phi3 "''Is 3 < 5?''"]
  have a: "contains ''Is 3 < 5?''
        (model_prune_format_mapping Phi3 (model_question_format_mapping Phi3 ''Is 3 < 5?''))"
    using th[THEN conjunct1, THEN mp, OF h1] by (rule conjunct1)
  have b: "prune_for_llama (format_Q_llama ''a <| b |> c <|eot_id c'' @ ''Yes.'')
       = '' a <| b |> c <|eot_id cYes.''"
    using format_prune_round_trip[of Llama "''a <| b |> c <|eot_id c''" "''Yes.''",
        THEN conjunct2, THEN conjunct1, THEN mp, OF h2]
    by simp
  show ?thesis by (rule conjI[OF a b])
qed

text \<open>The round trip fails for a question that is itself a marker: the llama pruning of
  the formatted question \<^verbatim>\<open><|eot_id|>\<close> is a single space. And the pruning deletes
  \<^verbatim>\<open><|end_of_text|>\<close> from the text the model wrote, a marker that the formatting never
  introduces.\<close>

theorem format_prune_round_trip_counterexample:
  "\<not> contains ''<|eot_id|>''
       (model_prune_format_mapping Llama (model_question_format_mapping Llama ''<|eot_id|>''))
   \<and> prune_for_llama (format_Q_llama ''Hi'' @ ''ok<|end_of_text|>'') = '' Hiok''"
  by (simp add: prune_for_llama_def format_Q_llama_def)

section \<open>Generation driver: what reaches the generator\<close>

text \<open>
  C3 at the call \<^verbatim>\<open>answer_question(..., topk_size=5, kb_scale_factor=-1)\<close>: the keyword
  arguments of \<^verbatim>\<open>model.generate\<close> are the six fixed ones, the same as for
  \<^verbatim>\<open>topk_size=-1, kb_scale_factor=100\<close>; no sparsification flag, top-k size or scale factor
  is among them, so neither value reaches the generator.
\<close>

theorem answer_question_drops_topk_and_scale:
  "answer_question_kwargs model Q kb f (Some 5) (- 1)
     = answer_question_kwargs model Q kb f (Some (- 1)) 100
   \<and> map fst (answer_question_kwargs model Q kb f (Some 5) (- 1))
     = [''input_ids'', ''attention_mask'', ''kb_kvs'', ''max_new_tokens'', ''tokenizer'',
        ''output_attentions'']
   \<and> map_of (answer_question_kwargs model Q kb f (Some 5) (- 1)) ''dynamic_sparsify'' = None
   \<and> map_of (answer_question_kwargs model Q kb f (Some 5) (- 1)) ''topk_size'' = None
   \<and> map_of (answer_question_kwargs model Q kb f (Some 5) (- 1)) ''kb_scale_factor'' = None
   \<and> answer_question generate model Q kb f (Some 5) (- 1)
     = answer_question generate model Q kb f (Some (- 1)) 100"
  by (simp add: answer_question_kwargs_def answer_question_def Let_def)

section \<open>Generation evaluation: extraction and the question cap\<close>

lemma split_from_nonempty: "split_from sep cur s \<noteq> []"
  by (induction sep cur s rule: split_from.induct) auto

lemma split_from_hit:
  "sep \<noteq> [] \<Longrightarrow> contains sep s \<Longrightarrow> 1 < length (split_from sep cur s)"
proof (induction sep cur s rule: split_from.induct)
  case (1 sep cur)
  then show ?case by simp
next
  case (2 sep cur c cs)
  show ?case
  proof (cases "prefix sep (c # cs)")
    case True
    have "split_from sep [] (drop (length sep - 1) cs) \<noteq> []"
      by (rule split_from_nonempty)
    then have "0 < length (split_from sep [] (drop (length sep - 1) cs))"
      by simp
    with True 2(3) show ?thesis by simp
  next
    case False
    with 2 show ?thesis by simp
  qed
qed

lemma split_after_hit:
  "Q \<noteq> [] \<Longrightarrow> contains Q out \<Longrightarrow> \<exists>r. split_after out Q = Inr r"
  using split_from_hit[of Q out "[]"] by (simp add: split_after_def py_split_def item1_def)

lemma eval_row_steps:
  assumes "eval_row c tk ps i row st = Inr st'"
  shows "length (st_asked st') = Suc (length (st_asked st))"
    and "(length (st_model_outputs st') = length (st_model_outputs st)
          \<and> length (st_answers st') = length (st_answers st) \<and> cfg_remove_sorry c)
       \<or> (length (st_model_outputs st') = Suc (length (st_model_outputs st))
          \<and> length (st_answers st') = Suc (length (st_answers st)))"
  using assms
  by (auto simp: eval_row_def Let_def split: prod.splits sum.splits if_splits)

lemma eval_loop_counts:
  "eval_loop c tk ps i rows st = Inr st' \<Longrightarrow>
   length (st_asked st') = length (st_asked st) + length rows
   \<and> length (st_model_outputs st') + length (st_answers st)
       = length (st_model_outputs st) + length (st_answers st')
   \<and> length (st_model_outputs st') \<le> length (st_model_outputs st) + length rows
   \<and> (\<not> cfg_remove_sorry c \<longrightarrow>
        length (st_model_outputs st') = length (st_model_outputs st) + length rows)"
proof (induction rows arbitrary: i st)
  case Nil
  then show ?case by simp
next
  case (Cons row rows)
  from Cons.prems obtain st1 where r: "eval_row c tk ps i row st = Inr st1"
    and l: "eval_loop c tk ps (Suc i) rows st1 = Inr st'"
    by (auto split: sum.splits)
  from eval_row_steps[OF r] Cons.IH[OF l] show ?case by auto
qed

lemma eval_row_single:
  assumes "cfg_multi_entites c = - 1" and "row_output c ps row = Inr out"
  shows "\<exists>st'. eval_row c tk ps i row st = Inr st'
     \<and> st_asked st' = st_asked st @ [eval_prompt c ps (kb_Q row)]
     \<and> st_answers st' = st_answers st @ map kb_description (filter (row_scored c ps) [row])"
  using assms
  by (auto simp: eval_row_def eval_question_def row_output_def row_scored_def Let_def)

lemma eval_loop_single:
  assumes "cfg_multi_entites c = - 1"
    and "\<forall>row\<in>set rows. \<exists>out. row_output c ps row = Inr out"
  shows "\<exists>st'. eval_loop c tk ps i rows st = Inr st'
     \<and> st_asked st' = st_asked st @ map (\<lambda>row. eval_prompt c ps (kb_Q row)) rows
     \<and> st_answers st' = st_answers st @ map kb_description (filter (row_scored c ps) rows)"
  using assms(2)
proof (induction rows arbitrary: i st)
  case Nil
  then show ?case by simp
next
  case (Cons row rows)
  then obtain out where o: "row_output c ps row = Inr out" by auto
  from eval_row_single[OF assms(1) o, of tk i st] obtain st1 where
    r: "eval_row c tk ps i row st = Inr st1"
    and a: "st_asked st1 = st_asked st @ [eval_prompt c ps (kb_Q row)]"
    and b: "st_answers st1 = st_answers st @ map kb_description (filter (row_scored c ps) [row])"
    by blast
  from Cons.prems have "\<forall>row\<in>set rows. \<exists>out. row_output c ps row = Inr out" by simp
  from Cons.IH[OF this, of "Suc i" st1] obtain st' where
    l: "eval_loop c tk ps (Suc i) rows st1 = Inr st'"
    and a': "st_asked st' = st_asked st1 @ map (\<lambda>row. eval_prompt c ps (kb_Q row)) rows"
    and b': "st_answers st' = st_answers st1 @ map kb_description (filter (row_scored c ps) rows)"
    by blast
  from r l a b a' b' show ?case by simp
qed

text \<open>
  C10, as the code has it. The loop of \<^verbatim>\<open>perform_eval\<close> runs over the first
  \<open>min 400 kb_size\<close> rows of the sampled KB and calls the generator once per iteration, so
  a run that returns has made exactly \<open>min 400 kb_size\<close> generation calls and has scored
  as many predictions as references, at most \<open>min 400 kb_size\<close> of them, and exactly that
  many when \<^verbatim>\<open>remove_sorry\<close> is off. In single-entity mode, when every one of those rows has
  a non-empty question that occurs in its pruned output, the run returns, the questions
  asked are those of the first \<open>min 400 kb_size\<close> rows in order, and the references scored
  are the descriptions of the rows that are kept (all of them, or with \<^verbatim>\<open>remove_sorry\<close>
  those whose output does not contain \<^verbatim>\<open>sorry\<close>). Here \<open>kb_size\<close> is \<open>length kb_idx\<close>.
\<close>

theorem perform_eval_question_cap:
  "(\<forall>st. perform_eval c dataset kb_idx = Inr st \<longrightarrow>
       length (st_asked st) = min 400 (length kb_idx)
     \<and> length (st_model_outputs st) = length (st_answers st)
     \<and> length (st_model_outputs st) \<le> min 400 (length kb_idx)
     \<and> (\<not> cfg_remove_sorry c \<longrightarrow> length (st_model_outputs st) = min 400 (length kb_idx)))
   \<and> (cfg_multi_entites c = - 1
      \<and> (\<forall>row \<in> set (take (min 400 (length kb_idx)) (map (\<lambda>idx. dataset ! idx) kb_idx)).
            kb_Q row \<noteq> []
          \<and> contains (kb_Q row)
               (eval_answer c (eval_prompt c (kb_prompt_strs (map (\<lambda>idx. dataset ! idx) kb_idx))
                                 (kb_Q row))))
      \<longrightarrow> (\<exists>st. perform_eval c dataset kb_idx = Inr st
            \<and> st_asked st
                = map (\<lambda>row. eval_prompt c (kb_prompt_strs (map (\<lambda>idx. dataset ! idx) kb_idx))
                               (kb_Q row))
                      (take (min 400 (length kb_idx)) (map (\<lambda>idx. dataset ! idx) kb_idx))
            \<and> st_answers st
                = map kb_description
                      (filter (row_scored c (kb_prompt_strs (map (\<lambda>idx. dataset ! idx) kb_idx)))
                         (take (min 400 (length kb_idx)) (map (\<lambda>idx. dataset ! idx) kb_idx)))))"
proof (intro conjI allI impI)
  fix st assume r: "perform_eval c dataset kb_idx = Inr st"
  let ?tk = "map (\<lambda>idx. dataset ! idx) kb_idx"
  from r have lp: "eval_loop c ?tk (kb_prompt_strs ?tk) 0 (take (min 400 (length ?tk)) ?tk)
      \<lparr>st_model_outputs = [], st_answers = [], st_full_outputs = [], st_asked = []\<rparr> = Inr st"
    by (simp add: perform_eval_def Let_def)
  have len: "length (take (min 400 (length ?tk)) ?tk) = min 400 (length kb_idx)"
    by simp
  note cnt = eval_loop_counts[OF lp, unfolded len]
  from cnt
  show "length (st_asked st) = min 400 (length kb_idx)"
    and "length (st_model_outputs st) = length (st_answers st)"
    and "length (st_model_outputs st) \<le> min 400 (length kb_idx)"
    and "\<not> cfg_remove_sorry c \<Longrightarrow> length (st_model_outputs st) = min 400 (length kb_idx)"
    by simp_all
next
  let ?tk = "map (\<lambda>idx. dataset ! idx) kb_idx"
  let ?ps = "kb_prompt_strs ?tk"
  let ?rows = "take (min 400 (length kb_idx)) ?tk"
  assume h: "cfg_multi_entites c = - 1 \<and>
    (\<forall>row\<in>set ?rows. kb_Q row \<noteq> [] \<and> contains (kb_Q row) (eval_answer c (eval_prompt c ?ps (kb_Q row))))"
  then have "\<forall>row\<in>set ?rows. \<exists>out. row_output c ?ps row = Inr out"
    by (auto simp: row_output_def intro: split_after_hit)
  from eval_loop_single[OF _ this, of ?tk 0
      "\<lparr>st_model_outputs = [], st_answers = [], st_full_outputs = [], st_asked = []\<rparr>"] h
  show "\<exists>st. perform_eval c dataset kb_idx = Inr st \<and>
      st_asked st = map (\<lambda>row. eval_prompt c ?ps (kb_Q row)) ?rows \<and>
      st_answers st = map kb_description (filter (row_scored c ?ps) ?rows)"
    by (simp add: perform_eval_def Let_def)
qed


lemmas sample_eval_defs =
  perform_eval_def sample_config_def generate_echo_def generate_reply_only_def france_def
  kb_prompt_strs_def eval_row_def eval_question_def eval_prompt_def eval_answer_def
  answer_question_def answer_question_kwargs_def prune_for_llama_def format_Q_llama_def
  split_after_def py_split_def item1_def no_match_def Let_def

theorem perform_eval_question_cap_witness:
  "\<exists>st. perform_eval (sample_config (generate_echo ''Paris'') False) [france] [0, 0] = Inr st
      \<and> length (st_asked st) = 2
      \<and> length (st_model_outputs st) = 2
      \<and> st_answers st = [''Paris'', ''Paris'']"
proof -
  let ?c = "sample_config (generate_echo ''Paris'') False"
  let ?S = "\<lparr>st_model_outputs = [''Paris'', ''Paris''], st_answers = [''Paris'', ''Paris''],
             st_full_outputs = [(''Paris'', ''The capital of France is Paris''),
                                (''Paris'', ''The capital of France is Paris'')],
             st_asked = [''Capital of France?'', ''Capital of France?'']\<rparr>"
  have ev: "perform_eval ?c [france] [0, 0] = Inr ?S"
    by (simp add: sample_eval_defs)
  have hit: "contains (kb_Q france) (eval_answer ?c (eval_prompt ?c ps (kb_Q france)))" for ps
    by (simp add: sample_eval_defs)
  have h: "cfg_multi_entites ?c = - 1
      \<and> (\<forall>row \<in> set (take (min 400 (length [0::nat, 0])) (map (\<lambda>idx. [france] ! idx) [0, 0])).
            kb_Q row \<noteq> []
          \<and> contains (kb_Q row)
               (eval_answer ?c (eval_prompt ?c (kb_prompt_strs (map (\<lambda>idx. [france] ! idx) [0, 0]))
                                 (kb_Q row))))"
    using hit by (simp add: sample_config_def) (simp add: france_def)
  from perform_eval_question_cap[THEN conjunct2, rule_format, OF h]
  obtain st where st: "perform_eval ?c [france] [0, 0] = Inr st" by blast
  from perform_eval_question_cap[THEN conjunct1, rule_format, OF st]
  have "length (st_asked st) = 2" "length (st_model_outputs st) = 2"
    by (simp_all add: sample_config_def)
  moreover have "st = ?S" using st ev by simp
  then have "st_answers st = [''Paris'', ''Paris'']" by (simp only: eval_state.simps)
  ultimately show ?thesis using st by blast
qed

text \<open>With \<^verbatim>\<open>remove_sorry\<close> on, a run over one row whose output contains \<^verbatim>\<open>sorry\<close> scores no
  answer, although \<open>min 400 kb_size = 1\<close>.\<close>

theorem perform_eval_question_cap_counterexample:
  "perform_eval (sample_config (generate_echo ''I am sorry'') True) [france] [0]
     = Inr \<lparr>st_model_outputs = [], st_answers = [], st_full_outputs = [],
            st_asked = [''Capital of France?'']\<rparr>
   \<and> min 400 (length [0::nat]) = 1"
  by (simp add: perform_eval_def sample_config_def generate_echo_def france_def
      kb_prompt_strs_def eval_row_def eval_question_def eval_prompt_def eval_answer_def
      answer_question_def answer_question_kwargs_def prune_for_llama_def format_Q_llama_def
      split_after_def py_split_def item1_def no_match_def Let_def)

text \<open>
  C2, as the code has it. Every evaluation routine extracts the answer with
  \<^verbatim>\<open>answer_question(...).split(Q)[1]\<close> and has no fallback: in a single-entity trial of
  \<^verbatim>\<open>perform_eval\<close>, and in every iteration of \<^verbatim>\<open>perform_eval_refusal\<close>, if the question does
  not occur in the pruned generated output, the extraction raises \<^verbatim>\<open>IndexError\<close> and the run
  stops; no answer string is produced.
\<close>

theorem single_entity_extraction_miss:
  "(cfg_multi_entites c = - 1
     \<and> \<not> contains (kb_Q row) (eval_answer c (eval_prompt c prompt_strs (kb_Q row)))
     \<longrightarrow> eval_row c test_kb prompt_strs i row st = Inl IndexError)
   \<and> (\<not> contains (kb_Q row) (refusal_answer rc prompt_strs (kb_Q row))
     \<longrightarrow> refusal_loop rc prompt_strs change_point i (row # rows) (outs, refs) = Inl IndexError)"
  by (simp add: eval_row_def eval_question_def refusal_loop.simps Let_def split_after_miss)

theorem single_entity_extraction_miss_witness:
  "eval_row (sample_config (generate_reply_only ''Paris'') False) [france] [] 0 france
     \<lparr>st_model_outputs = [], st_answers = [], st_full_outputs = [], st_asked = []\<rparr>
   = Inl IndexError"
  using single_entity_extraction_miss[where c = "sample_config (generate_reply_only ''Paris'') False"
      and row = france and prompt_strs = "[]" and test_kb = "[france]" and i = 0
      and st = "\<lparr>st_model_outputs = [], st_answers = [], st_full_outputs = [], st_asked = []\<rparr>",
      THEN conjunct1]
  by (simp add: sample_config_def generate_reply_only_def france_def eval_prompt_def
      eval_answer_def answer_question_def prune_for_llama_def Let_def)

text \<open>A generator that answers without repeating the question makes the whole run raise.\<close>

theorem single_entity_extraction_miss_counterexample:
  "perform_eval (sample_config (generate_reply_only ''Paris'') False) [france] [0]
     = Inl IndexError"
  by (simp add: perform_eval_def sample_config_def generate_reply_only_def france_def
      kb_prompt_strs_def eval_row_def eval_question_def eval_prompt_def eval_answer_def
      answer_question_def answer_question_kwargs_def prune_for_llama_def format_Q_llama_def
      split_after_def py_split_def item1_def no_match_def Let_def)

section \<open>Multi-entity normalisation\<close>

lemma lazy_group_no_dot:
  "CHR ''.'' \<notin> set s \<Longrightarrow> lazy_group dot_or_semicolon s = lazy_group semicolon s"
  by (induction s) (auto simp: dot_or_semicolon_def semicolon_def)

lemma findall_no_dot:
  "CHR ''.'' \<notin> set s \<Longrightarrow> findall_is_are dot_or_semicolon s = findall_is_are semicolon s"
proof (induction "length s" arbitrary: s rule: less_induct)
  case less
  show ?case
  proof (cases s)
    case Nil
    then show ?thesis by simp
  next
    case (Cons c cs)
    have cs: "CHR ''.'' \<notin> set cs" using less.prems Cons by simp
    have ih1: "findall_is_are dot_or_semicolon cs = findall_is_are semicolon cs"
      using less.hyps[of cs] cs Cons by simp
    have ih2: "findall_is_are dot_or_semicolon (drop k cs) = findall_is_are semicolon (drop k cs)"
      for k
    proof -
      have "CHR ''.'' \<notin> set (drop k cs)" using cs by (meson in_set_dropD)
      then show ?thesis using less.hyps[of "drop k cs"] Cons by simp
    qed
    have lg: "lazy_group dot_or_semicolon (drop h (c # cs)) = lazy_group semicolon (drop h (c # cs))"
      for h
    proof -
      have "CHR ''.'' \<notin> set (drop h (c # cs))" using less.prems Cons by (meson in_set_dropD)
      then show ?thesis by (rule lazy_group_no_dot)
    qed
    show ?thesis
      unfolding Cons findall_is_are.simps lg ih1 ih2 ..
  qed
qed

text \<open>
  C8, as the code has it. In a multi-entity trial the prediction is the list of matches of
  the pattern with terminator \<^verbatim>\<open>.\<close> or \<^verbatim>\<open>;\<close>, joined by \<^verbatim>\<open>"; "\<close>, and the reference is the
  list of matches of the pattern with terminator \<^verbatim>\<open>;\<close> only, joined by \<^verbatim>\<open>";"\<close>. On a text
  without a full stop the two patterns find the same matches, so there the two
  normalisations differ in the separator only.
\<close>

theorem multi_entity_normalisation:
  "multi_entity_prediction s = py_join ''; '' (findall_is_are dot_or_semicolon s)
   \<and> multi_entity_reference s = py_join '';'' (findall_is_are semicolon s)
   \<and> (CHR ''.'' \<notin> set s
        \<longrightarrow> findall_is_are dot_or_semicolon s = findall_is_are semicolon s)"
  by (simp add: multi_entity_prediction_def multi_entity_reference_def findall_no_dot)

theorem multi_entity_normalisation_witness:
  "findall_is_are dot_or_semicolon ''The color of A is red; The color of B is blue;''
     = findall_is_are semicolon ''The color of A is red; The color of B is blue;''
   \<and> multi_entity_prediction ''The color of A is red; The color of B is blue;'' = ''red; blue''"
  using multi_entity_normalisation[of "''The color of A is red; The color of B is blue;''"]
  by (simp add: is_are_head_def dot_or_semicolon_def)

theorem multi_entity_normalisation_counterexample:
  "multi_entity_prediction ''The color of A is red; The color of B is blue;'' = ''red; blue''
   \<and> multi_entity_reference ''The color of A is red; The color of B is blue;'' = ''red;blue''
   \<and> multi_entity_prediction ''The color of A is red. The color of B is blue.'' = ''red; blue''
   \<and> multi_entity_reference ''The color of A is red. The color of B is blue.'' = []"
  by (simp add: multi_entity_prediction_def multi_entity_reference_def is_are_head_def
      dot_or_semicolon_def semicolon_def)

section \<open>Float rounding\<close>

lemma floor_log2_le:
  assumes "0 < x"
  shows "2 powi (floor_log2 x) \<le> x"
proof -
  obtain p q where pq: "quotient_of x = (p, q)" by (cases "quotient_of x")
  have q: "0 < q" using pq by (rule quotient_of_denom_pos)
  have x: "x = of_int p / of_int q" using pq by (rule quotient_of_div)
  have p: "0 < p" using assms q x by (simp add: zero_less_divide_iff)
  let ?e = "bitlen p - bitlen q"
  show ?thesis
  proof (cases "2 powi ?e \<le> x")
    case True
    then show ?thesis by (simp add: floor_log2_def pq Let_def)
  next
    case False
    have bp: "2 ^ nat (bitlen p - 1) \<le> p" using bitlen_bounds[OF p] by simp
    have bq: "q < 2 ^ nat (bitlen q)" using bitlen_bounds[OF q] by simp
    have p1: "1 \<le> bitlen p" using p bitlen_eq_zero_iff[of p] bitlen_nonneg[of p] by linarith
    have q0: "0 \<le> bitlen q" by (rule bitlen_nonneg)
    have lo: "(2::rat) powi (bitlen p - 1) \<le> of_int p"
    proof -
      have "(of_int (2 ^ nat (bitlen p - 1)) :: rat) \<le> of_int p"
        using bp by (simp only: of_int_le_iff)
      then show ?thesis using p1 by (simp add: power_int_nonneg_exp)
    qed
    have hi: "(of_int q :: rat) \<le> 2 powi (bitlen q)"
    proof -
      have "(of_int q :: rat) \<le> of_int (2 ^ nat (bitlen q))"
        using bq by (simp only: of_int_le_iff less_imp_le)
      then show ?thesis using q0 by (simp add: power_int_nonneg_exp)
    qed
    have "(2::rat) powi (?e - 1) = 2 powi (bitlen p - 1) / 2 powi (bitlen q)"
      using power_int_diff[of "2::rat" "bitlen p - 1" "bitlen q"] by (simp add: algebra_simps)
    also have "\<dots> \<le> of_int p / of_int q"
      by (rule frac_le) (use lo hi q p in simp_all)
    finally have "(2::rat) powi (?e - 1) \<le> x" using x by simp
    with False show ?thesis by (simp add: floor_log2_def pq Let_def)
  qed
qed

lemma round_half_even_bounds: "\<lfloor>y\<rfloor> \<le> round_half_even y \<and> round_half_even y \<le> \<lceil>y\<rceil>"
proof -
  have "\<lfloor>y\<rfloor> \<le> \<lceil>y\<rceil>" by (simp add: floor_le_ceiling)
  moreover have "\<lfloor>y\<rfloor> + 1 \<le> \<lceil>y\<rceil>" if "1 / 2 \<le> y - of_int \<lfloor>y\<rfloor>"
  proof -
    from that have "of_int \<lfloor>y\<rfloor> < y" by simp
    then have "\<lfloor>y\<rfloor> < \<lceil>y\<rceil>" by (simp add: less_ceiling_iff)
    then show ?thesis by simp
  qed
  ultimately show ?thesis
    by (auto simp: round_half_even_def Let_def)
qed

lemma fl64_sandwich:
  assumes "0 \<le> x" and "x < 2 ^ 53"
  shows "of_int \<lfloor>x\<rfloor> \<le> fl64 x \<and> fl64 x \<le> of_int \<lceil>x\<rceil>"
proof (cases "x = 0")
  case True
  then show ?thesis by (simp add: fl64_def)
next
  case False
  with assms have pos: "0 < x" by simp
  define e where "e = max (floor_log2 x) (- 1022)"
  define j where "j = nat (52 - e)"
  define N :: int where "N = 2 ^ j"
  have "floor_log2 x < 53"
  proof (rule ccontr)
    assume "\<not> floor_log2 x < 53"
    then have "(2::rat) powi 53 \<le> 2 powi (floor_log2 x)"
      by (intro power_int_increasing) simp_all
    also have "\<dots> \<le> x" using pos by (rule floor_log2_le)
    finally show False using assms(2) by simp
  qed
  then have e52: "e \<le> 52" by (simp add: e_def)
  have N: "0 < N" by (simp add: N_def)
  have u: "(2::rat) powi (e - 52) = 1 / of_int N"
  proof -
    have "e - 52 = - int j" using e52 by (simp add: j_def)
    then have "(2::rat) powi (e - 52) = 2 powi (- int j)" by (simp only:)
    also have "\<dots> = inverse (2 ^ j)" by (simp only: power_int_minus power_int_of_nat)
    also have "\<dots> = 1 / of_int N" by (simp add: N_def inverse_eq_divide)
    finally show ?thesis .
  qed
  have fl: "fl64 x = of_int (round_half_even (x * of_int N)) / of_int N"
    using pos False by (simp add: fl64_def Let_def e_def[symmetric] u)
  have lo: "\<lfloor>x\<rfloor> * N \<le> round_half_even (x * of_int N)"
  proof -
    have "of_int (\<lfloor>x\<rfloor> * N) \<le> x * of_int N"
      using N by (simp add: mult_right_mono)
    then have "\<lfloor>x\<rfloor> * N \<le> \<lfloor>x * of_int N\<rfloor>" by (simp only: le_floor_iff)
    then show ?thesis using round_half_even_bounds[of "x * of_int N"] by linarith
  qed
  have hi: "round_half_even (x * of_int N) \<le> \<lceil>x\<rceil> * N"
  proof -
    have "x * of_int N \<le> of_int (\<lceil>x\<rceil> * N)"
      using N by (simp add: mult_right_mono)
    then have "\<lceil>x * of_int N\<rceil> \<le> \<lceil>x\<rceil> * N" by (simp only: ceiling_le_iff)
    then show ?thesis using round_half_even_bounds[of "x * of_int N"] by linarith
  qed
  have Nr: "(0::rat) < of_int N" using N by simp
  have "of_int \<lfloor>x\<rfloor> = (of_int (\<lfloor>x\<rfloor> * N) :: rat) / of_int N" using Nr by simp
  also have "\<dots> \<le> of_int (round_half_even (x * of_int N)) / of_int N"
    using lo Nr by (intro divide_right_mono) (simp_all only: of_int_le_iff less_imp_le)
  finally have a: "of_int \<lfloor>x\<rfloor> \<le> fl64 x" using fl by simp
  have "(of_int (round_half_even (x * of_int N)) :: rat) / of_int N \<le> of_int (\<lceil>x\<rceil> * N) / of_int N"
    using hi Nr by (intro divide_right_mono) (simp_all only: of_int_le_iff less_imp_le)
  also have "\<dots> = of_int \<lceil>x\<rceil>" using Nr by simp
  finally have b: "fl64 x \<le> of_int \<lceil>x\<rceil>" using fl by simp
  from a b show ?thesis ..
qed

lemma fl64_of_int: "0 \<le> n \<Longrightarrow> n < 2 ^ 53 \<Longrightarrow> fl64 (of_int n) = of_int n"
proof -
  assume n: "0 \<le> n" "n < 2 ^ 53"
  have "(of_int n :: rat) < of_int (2 ^ 53)" using n(2) by (simp only: of_int_less_iff)
  then have "(of_int n :: rat) < 2 ^ 53" by simp
  from fl64_sandwich[of "of_int n", OF _ this] n(1) show ?thesis by simp
qed

lemma fl64_unit: "0 \<le> r \<Longrightarrow> r \<le> 1 \<Longrightarrow> 0 \<le> fl64 r \<and> fl64 r \<le> 1"
proof -
  assume r: "0 \<le> r" "r \<le> 1"
  then have "r < 2 ^ 53" by simp
  from fl64_sandwich[OF r(1) this] have "of_int \<lfloor>r\<rfloor> \<le> fl64 r" "fl64 r \<le> of_int \<lceil>r\<rceil>"
    by simp_all
  moreover have "0 \<le> \<lfloor>r\<rfloor>" using r by simp
  moreover have "\<lceil>r\<rceil> \<le> 1" using r by (simp add: ceiling_le_iff)
  ultimately have "(0::rat) \<le> of_int \<lfloor>r\<rfloor>" "of_int \<lfloor>r\<rfloor> \<le> fl64 r"
    "fl64 r \<le> of_int \<lceil>r\<rceil>" "(of_int \<lceil>r\<rceil> :: rat) \<le> 1"
    by simp_all
  then show ?thesis by linarith
qed


text \<open>\<^verbatim>\<open>int(n * y)\<close> for a size \<open>n\<close> below \<open>2\<^sup>5\<^sup>3\<close> and a float \<open>y\<close> between 0 and 1: the floor of
  the exact product, or one more when the float product rounds up to the next integer.\<close>

lemma int_times_float_bounds:
  assumes "0 \<le> n" and "n < 2 ^ 53" and "0 \<le> y" and "y \<le> 1"
  shows "0 \<le> py_int (int_times_float n y)
       \<and> \<lfloor>of_int n * y\<rfloor> \<le> py_int (int_times_float n y)
       \<and> py_int (int_times_float n y) \<le> \<lceil>of_int n * y\<rceil>"
proof -
  let ?x = "of_int n * y :: rat"
  have x0: "0 \<le> ?x" using assms by simp
  have "?x \<le> of_int n" using assms by (simp add: mult_left_le)
  also have "(of_int n :: rat) < of_int (2 ^ 53)" using assms(2) by (simp only: of_int_less_iff)
  finally have x53: "?x < 2 ^ 53" by simp
  have eq: "int_times_float n y = fl64 ?x"
    using assms by (simp add: int_times_float_def fl64_of_int)
  from fl64_sandwich[OF x0 x53] have lo: "of_int \<lfloor>?x\<rfloor> \<le> fl64 ?x" and hi: "fl64 ?x \<le> of_int \<lceil>?x\<rceil>"
    by simp_all
  have f0: "0 \<le> \<lfloor>?x\<rfloor>" using x0 by simp
  then have "(0::rat) \<le> of_int \<lfloor>?x\<rfloor>" by simp
  then have nn: "0 \<le> fl64 ?x" using lo by linarith
  then have pi: "py_int (fl64 ?x) = \<lfloor>fl64 ?x\<rfloor>" by (simp add: py_int_def)
  have a: "\<lfloor>?x\<rfloor> \<le> \<lfloor>fl64 ?x\<rfloor>" using lo by (simp only: le_floor_iff)
  have "\<lfloor>fl64 ?x\<rfloor> \<le> \<lfloor>(of_int \<lceil>?x\<rceil> :: rat)\<rfloor>" using hi by (rule floor_mono)
  then have b: "\<lfloor>fl64 ?x\<rfloor> \<le> \<lceil>?x\<rceil>" by (simp only: floor_of_int)
  from a b f0 show ?thesis unfolding eq pi by linarith
qed

section \<open>Refusal protocol: sampling and labels\<close>

lemma slice_to_prefix: "prefix (slice_to k xs) xs"
  by (simp add: slice_to_def take_is_prefix)

lemma slice_to_nonneg: "0 \<le> k \<Longrightarrow> slice_to k xs = take (nat k) xs"
  by (simp add: slice_to_def)


text \<open>
  C5, as the code has it. The outlier indices are a prefix of a rearrangement of the dataset
  indices that are not in the active KB index set: they are distinct, below the dataset
  size and disjoint from the active KB index set. The question size is first capped at the
  KB size, \<open>q = min kb_size question_size\<close>, and for a ratio between 0 and 1 the prefix has the
  length \<^verbatim>\<open>int(q * outlier_ratio)\<close> (when that many indices are left), computed in float
  arithmetic: the float product truncated to an integer, which lies between the floor and
  the ceiling of the exact product of \<open>q\<close> and the float \<open>outlier_ratio\<close>. The only assumption
  is that the shuffle rearranges the pool.
\<close>

theorem refusal_outliers_disjoint:
  assumes "mset (shuffle (filter (\<lambda>i. i \<notin> set kb_idx) [0..<n]))
           = mset (filter (\<lambda>i. i \<notin> set kb_idx) [0..<n])"
  shows "set (refusal_outlier_idx n kb_idx shuffle kb_size question_size r) \<inter> set kb_idx = {}
     \<and> distinct (refusal_outlier_idx n kb_idx shuffle kb_size question_size r)
     \<and> set (refusal_outlier_idx n kb_idx shuffle kb_size question_size r) \<subseteq> {..<n}
     \<and> (0 \<le> r \<and> r \<le> 1 \<and> 0 \<le> min kb_size question_size
          \<and> min kb_size question_size < 2 ^ 53 \<longrightarrow>
          refusal_outlier_idx n kb_idx shuffle kb_size question_size r
            = take (nat (py_int (int_times_float (min kb_size question_size) (fl64 r))))
                (shuffle (filter (\<lambda>i. i \<notin> set kb_idx) [0..<n]))
        \<and> \<lfloor>of_int (min kb_size question_size) * fl64 r\<rfloor>
            \<le> py_int (int_times_float (min kb_size question_size) (fl64 r))
        \<and> py_int (int_times_float (min kb_size question_size) (fl64 r))
            \<le> \<lceil>of_int (min kb_size question_size) * fl64 r\<rceil>)"
proof -
  let ?pool = "filter (\<lambda>i. i \<notin> set kb_idx) [0..<n]"
  let ?k = "py_int (int_times_float (min kb_size question_size) (fl64 r))"
  have out: "refusal_outlier_idx n kb_idx shuffle kb_size question_size r
             = slice_to ?k (shuffle ?pool)"
    by (simp add: refusal_outlier_idx_def Let_def)
  have s: "set (shuffle ?pool) = set ?pool" using assms by (rule mset_eq_setD)
  have d: "distinct (shuffle ?pool)"
    using assms by (metis distinct_filter distinct_upt mset_eq_imp_distinct_iff)
  have sub: "set (slice_to ?k (shuffle ?pool)) \<subseteq> set ?pool"
    using set_mono_prefix[OF slice_to_prefix[of ?k "shuffle ?pool"]] s by simp
  have dis: "distinct (slice_to ?k (shuffle ?pool))"
    using d by (simp add: slice_to_def)
  have fl: "slice_to ?k (shuffle ?pool) = take (nat ?k) (shuffle ?pool)
        \<and> \<lfloor>of_int (min kb_size question_size) * fl64 r\<rfloor> \<le> ?k
        \<and> ?k \<le> \<lceil>of_int (min kb_size question_size) * fl64 r\<rceil>"
    if h: "0 \<le> r \<and> r \<le> 1 \<and> 0 \<le> min kb_size question_size
          \<and> min kb_size question_size < 2 ^ 53"
  proof -
    from h fl64_unit[of r] have u: "0 \<le> fl64 r" "fl64 r \<le> 1" by simp_all
    from h have q: "0 \<le> min kb_size question_size" "min kb_size question_size < 2 ^ 53"
      by simp_all
    from int_times_float_bounds[OF q u] show ?thesis by (simp add: slice_to_nonneg)
  qed
  from sub dis fl show ?thesis unfolding out by auto
qed

theorem refusal_outliers_disjoint_witness:
  "set (refusal_outlier_idx 10 [0, 1, 1] rev 3 100 (1 / 2)) \<inter> set [0, 1, 1] = {}
   \<and> refusal_outlier_idx 10 [0, 1, 1] rev 3 100 (1 / 2) = [9]"
proof -
  have "mset (rev (filter (\<lambda>i. i \<notin> set [0, 1, 1::nat]) [0..<10]))
        = mset (filter (\<lambda>i. i \<notin> set [0, 1, 1]) [0..<10])"
    by simp
  note th = refusal_outliers_disjoint[of rev "[0, 1, 1]" 10 3 100 "1 / 2", OF this]
  have a: "set (refusal_outlier_idx 10 [0, 1, 1] rev 3 100 (1 / 2)) \<inter> set [0, 1, 1] = {}"
    using th by (rule conjunct1)
  have b: "refusal_outlier_idx 10 [0, 1, 1] rev 3 100 (1 / 2) = [9]"
    by code_simp
  show ?thesis by (rule conjI[OF a b])
qed

text \<open>With \<open>kb_size = 2\<close> and \<open>question_size = 4\<close> one outlier is kept, not
  \<open>\<lfloor>question_size * outlier_ratio\<rfloor> = 2\<close>. With \<open>kb_size = question_size = 50\<close> and
  \<open>outlier_ratio = 0.58\<close> the float product is just below 29 and 28 outliers are kept.\<close>

theorem refusal_outliers_disjoint_counterexample:
  "length (refusal_outlier_idx 10 [0, 1] rev 2 4 (1 / 2)) = 1 \<and> \<lfloor>(4::rat) * (1 / 2)\<rfloor> = 2
   \<and> length (refusal_outlier_idx 100 [0..<50] rev 50 50 (58 / 100)) = 28
   \<and> \<lfloor>(50::rat) * (58 / 100)\<rfloor> = 29"
  by code_simp




lemma float_products_5:
  "py_int (int_times_float 5 (one_minus_float (fl64 (1 / 5)))) = 4"
  "py_int (int_times_float 5 (fl64 (1 / 5))) = 1"
  by code_simp+

text \<open>
  C6 at a dataset of one row with \<^verbatim>\<open>kb_size=5, question_size=100, outlier_ratio=0.2\<close>: every
  KB index is 0, no row is left for the outliers, so four rows are asked and four
  predictions are made, while the label list has five entries (four zeros and a one).
  The two lists do not form a 2\<times>N array and \<^verbatim>\<open>np.array\<close> fails.
\<close>

theorem refusal_result_ragged:
  "perform_eval_refusal (sample_refusal_config (generate_echo ''Paris'')) [france]
       [0, 0, 0, 0, 0] 5 100 (1 / 5) = Inl ValueError
   \<and> length (refusal_test_kb [france] [0, 0, 0, 0, 0] rev 5 100 (1 / 5)) = 4
   \<and> refusal_true_label 5 100 (1 / 5) = replicate 4 0 @ [1]"
  by (simp add: perform_eval_refusal_def sample_refusal_config_def generate_echo_def france_def
      refusal_test_kb_def refusal_outlier_idx_def refusal_change_point_def
      refusal_true_label_def refusal_answer_def refusal_prediction_def np_array2_def
      float_products_5 slice_to_def py_repeat_def kb_prompt_strs_def
      answer_question_def answer_question_kwargs_def prune_for_llama_def format_Q_llama_def
      split_after_def py_split_def item1_def Let_def)

section \<open>Choice of the knowledge-base subset\<close>

text \<open>
  C7. If the requested KB size exceeds the dataset size, \<^verbatim>\<open>eval_accuracy\<close> fails with
  \<^verbatim>\<open>IndexError\<close> and has made no call to the generator. If the KB size equals the dataset
  size, the choice does not fail and selects every index of the dataset. For a KB size
  from 0 up to, but excluding, the dataset size, the choice returns \<open>kb_size\<close> distinct
  indices of the dataset, the first \<open>kb_size\<close> entries of the random permutation.
\<close>

theorem kb_size_boundary:
  "(int n < kb_size \<longrightarrow>
      eval_accuracy topk5 generate_and_save n kb_size perm test_batch_size kb_layer_frequency
        = (Inl IndexError, 0))
   \<and> (kb_size = int n \<longrightarrow>
        dataset_subset_idx n kb_size perm = Inr [0..<n] \<and> set [0..<n] = {..<n})
   \<and> (0 \<le> kb_size \<and> kb_size < int n \<and> mset perm = mset [0..<n] \<longrightarrow>
        (\<exists>idxs. dataset_subset_idx n kb_size perm = Inr idxs
           \<and> length idxs = nat kb_size \<and> distinct idxs \<and> set idxs \<subseteq> {..<n}))"
proof (intro conjI impI)
  assume "int n < kb_size"
  then show "eval_accuracy topk5 generate_and_save n kb_size perm test_batch_size
      kb_layer_frequency = (Inl IndexError, 0)"
    by (simp add: eval_accuracy_def dataset_subset_idx_def Let_def)
next
  assume "kb_size = int n"
  then show "dataset_subset_idx n kb_size perm = Inr [0..<n]"
    by (simp add: dataset_subset_idx_def)
next
  show "set [0..<n] = {..<n}" by auto
next
  assume h: "0 \<le> kb_size \<and> kb_size < int n \<and> mset perm = mset [0..<n]"
  then have r: "dataset_subset_idx n kb_size perm = Inr (take (nat kb_size) perm)"
    by (simp add: dataset_subset_idx_def)
  from h have len: "length perm = n" by (metis length_upt minus_nat.diff_0 size_mset)
  from h have d: "distinct perm" by (metis distinct_upt mset_eq_imp_distinct_iff)
  from h have s: "set perm = {..<n}" by (metis atLeast_upt mset_eq_setD)
  from h have le: "nat kb_size \<le> n" by linarith
  have "length (take (nat kb_size) perm) = nat kb_size" using len le by simp
  moreover have "distinct (take (nat kb_size) perm)" using d by simp
  moreover have "set (take (nat kb_size) perm) \<subseteq> {..<n}" using s set_take_subset by fastforce
  ultimately show "\<exists>idxs. dataset_subset_idx n kb_size perm = Inr idxs
           \<and> length idxs = nat kb_size \<and> distinct idxs \<and> set idxs \<subseteq> {..<n}"
    using r by blast
qed

theorem kb_size_boundary_witness:
  "eval_accuracy topk5_sample diagonal_run 5 6 [] 5 3 = (Inl IndexError, 0)
   \<and> dataset_subset_idx 5 5 [] = Inr [0, 1, 2, 3, 4]
   \<and> dataset_subset_idx 5 2 [3, 1, 4, 0, 2] = Inr [3, 1]"
proof -
  note th = kb_size_boundary[of 5 6 topk5_sample diagonal_run "[]" 5 3]
  have a: "eval_accuracy topk5_sample diagonal_run 5 6 [] 5 3 = (Inl IndexError, 0)"
    using th by simp
  have b: "dataset_subset_idx 5 5 [] = Inr [0, 1, 2, 3, 4]"
    using kb_size_boundary[of 5 5 topk5_sample diagonal_run "[]" 5 3] by (simp add: upt_rec)
  have c: "dataset_subset_idx 5 2 [3, 1, 4, 0, 2] = Inr [3, 1]"
    by (simp add: dataset_subset_idx_def)
  from a b c show ?thesis by blast
qed

section \<open>Attention retrieval scoring\<close>

lemma length_concat_rows:
  "length (concat (map (\<lambda>r. map (g r) [0..<k]) [0..<R])) = R * k"
  by (induction R) simp_all

lemma nth_concat_rows:
  "r < R \<Longrightarrow> j < k \<Longrightarrow> concat (map (\<lambda>r. map (g r) [0..<k]) [0..<R]) ! (r * k + j) = g r j"
proof (induction R)
  case 0
  then show ?case by simp
next
  case (Suc R)
  let ?c = "concat (map (\<lambda>r. map (g r) [0..<k]) [0..<R])"
  have len: "length ?c = R * k" by (rule length_concat_rows)
  show ?case
  proof (cases "r < R")
    case True
    then have "Suc r \<le> R" by simp
    then have "Suc r * k \<le> R * k" by (rule mult_le_mono1)
    with Suc.prems(2) have "r * k + j < R * k" by simp
    with len Suc.IH[OF True Suc.prems(2)] show ?thesis by (simp add: nth_append)
  next
    case False
    with Suc.prems have "r = R" by simp
    with len Suc.prems(2) show ?thesis by (simp add: nth_append)
  qed
qed

lemma zip_map_same: "zip (map f xs) xs = map (\<lambda>x. (f x, x)) xs"
  by (induction xs) simp_all

lemma argmax_from_first_max:
  "pre \<noteq> [] \<Longrightarrow> first_max pre best \<Longrightarrow> v = pre ! best \<Longrightarrow> i = length pre \<Longrightarrow>
   first_max (pre @ xs) (argmax_from best v i xs)"
proof (induction xs arbitrary: pre best v i)
  case Nil
  then show ?case by simp
next
  case (Cons x xs)
  show ?case
  proof (cases "v < x")
    case True
    have fm: "first_max (pre @ [x]) (length pre)"
      using Cons.prems True by (auto simp: first_max_def nth_append less_Suc_eq
          intro: le_less_trans less_imp_le)
    have "first_max ((pre @ [x]) @ xs) (argmax_from (length pre) x (Suc (length pre)) xs)"
      by (rule Cons.IH) (use fm in simp_all)
    with True Cons.prems(4) show ?thesis by simp
  next
    case False
    have fm: "first_max (pre @ [x]) best"
      using Cons.prems False by (auto simp: first_max_def nth_append less_Suc_eq)
    have "first_max ((pre @ [x]) @ xs) (argmax_from best v (Suc (length pre)) xs)"
      by (rule Cons.IH) (use fm Cons.prems in \<open>simp_all add: first_max_def nth_append\<close>)
    with False Cons.prems(4) show ?thesis by simp
  qed
qed

lemma argmax_first_max: "xs \<noteq> [] \<Longrightarrow> first_max xs (argmax xs)"
proof (cases xs)
  case Nil
  assume "xs \<noteq> []"
  with Nil show ?thesis by simp
next
  case (Cons x xs')
  have "first_max ([x] @ xs') (argmax_from 0 x (length [x]) xs')"
    by (rule argmax_from_first_max) (simp_all add: first_max_def)
  with Cons show ?thesis by simp
qed

lemma first_max_unique: "first_max xs j \<Longrightarrow> first_max xs j' \<Longrightarrow> j = j'"
proof (rule ccontr)
  assume a: "first_max xs j" and b: "first_max xs j'" and ne: "j \<noteq> j'"
  then consider "j < j'" | "j' < j" by linarith
  then show False
  proof cases
    case 1
    with b have "xs ! j < xs ! j'" by (simp add: first_max_def)
    moreover from a b have "xs ! j' \<le> xs ! j" by (simp add: first_max_def)
    ultimately show False by simp
  next
    case 2
    with a have "xs ! j' < xs ! j" by (simp add: first_max_def)
    moreover from a b have "xs ! j \<le> xs ! j'" by (simp add: first_max_def)
    ultimately show False by simp
  qed
qed

lemma argmax_eq_iff: "xs \<noteq> [] \<Longrightarrow> (argmax xs = j) = first_max xs j"
  using argmax_first_max first_max_unique by blast

lemma row_index_bound: "b < B \<Longrightarrow> h < H \<Longrightarrow> b * H + h < H * (B::nat)"
proof -
  assume b: "b < B" and h: "h < H"
  from b have "Suc b \<le> B" by simp
  then have "Suc b * H \<le> B * H" by (rule mult_le_mono1)
  with h show ?thesis by (simp add: mult.commute)
qed

lemma flat_index_bound:
  assumes "b < B" and "h < H" and "k < K"
  shows "(b * H + h) * K + k < H * (B * (K::nat))"
proof -
  from row_index_bound[OF assms(1) assms(2)] have "Suc (b * H + h) \<le> H * B" by simp
  then have "Suc (b * H + h) * K \<le> H * B * K" by (rule mult_le_mono1)
  with assms(3) show ?thesis by (simp add: mult.assoc)
qed

lemma nth_truncated:
  assumes "n < P * min K' kb_size"
  shows "concat (map (\<lambda>r. map (\<lambda>j. nd_flat loaded ! (r * K' + j)) [0..<min K' kb_size]) [0..<P]) ! n
         = truncated_entry loaded K' kb_size n"
proof -
  let ?K = "min K' kb_size"
  have K: "0 < ?K"
  proof (rule ccontr)
    assume "\<not> 0 < ?K"
    then have "?K = 0" by blast
    with assms show False by (simp only: mult_0_right not_less_zero)
  qed
  have r: "n div ?K < P" using assms by (rule less_mult_imp_div_less)
  have j: "n mod ?K < ?K" using K by (rule mod_less_divisor)
  from nth_concat_rows[OF r j, of "\<lambda>r j. nd_flat loaded ! (r * K' + j)"]
  show ?thesis by (simp only: truncated_entry_def div_mult_mod_eq)
qed

lemma score_attention_value:
  fixes loaded :: "('a::{linorder,plus,zero}) ndarray"
  assumes shape: "nd_shape loaded = ds @ [K']"
  shows "score_attention topk5 loaded kb_size B =
     (if B * kb_size = 0 \<or> (prod_list ds * min K' kb_size) mod (B * kb_size) \<noteq> 0
      then Inl ValueError
      else if kb_size < 5 then Inl RuntimeError
      else Inr (mean_bool (map (\<lambda>i. argmax (score_vector loaded K' kb_size
                     (prod_list ds * min K' kb_size div (B * kb_size)) i) = i) [0..<B]),
                mean_bool (map (\<lambda>i. i \<in> set (topk5 (score_vector loaded K' kb_size
                     (prod_list ds * min K' kb_size div (B * kb_size)) i))) [0..<B])))"
proof -
  let ?K = "min K' kb_size"
  let ?P = "prod_list ds"
  let ?H = "?P * ?K div (B * kb_size)"
  let ?flat = "concat (map (\<lambda>r. map (\<lambda>j. nd_flat loaded ! (r * K' + j)) [0..<?K]) [0..<?P])"
  let ?T = "\<lparr>nd_shape = ds @ [?K], nd_flat = ?flat\<rparr>"
  let ?W = "\<lparr>nd_shape = [B, ?H, kb_size], nd_flat = ?flat\<rparr>"
  let ?S = "score_vector loaded K' kb_size ?H"
  have tr: "truncate_last_axis kb_size loaded = Inr ?T"
    using shape by (simp add: truncate_last_axis_def prod_list.rev)
  have len: "length ?flat = ?P * ?K" by (rule length_concat_rows)
  show ?thesis
  proof (cases "B * kb_size = 0 \<or> (?P * ?K) mod (B * kb_size) \<noteq> 0")
    case True
    then have rs: "reshape_middle B kb_size ?T = Inl ValueError"
      by (simp add: reshape_middle_def Let_def len del: mult_eq_0_iff)
    from True show ?thesis
      by (simp only: score_attention_def tr rs Let_def sum.case if_True)
  next
    case False
    then have rs: "reshape_middle B kb_size ?T = Inr ?W"
      by (simp add: reshape_middle_def Let_def len del: mult_eq_0_iff)
    from False have m: "(?P * ?K) mod (B * kb_size) = 0" by blast
    from div_mult_mod_eq[of "?P * ?K" "B * kb_size"] m
    have tot: "?H * (B * kb_size) = ?P * ?K" by (simp only: add_0_right)
    have el: "?flat ! ((b * ?H + h) * kb_size + k)
              = truncated_entry loaded K' kb_size ((b * ?H + h) * kb_size + k)"
      if "b < B" "h < ?H" "k < kb_size" for b h k
    proof -
      from flat_index_bound[OF that] tot have "(b * ?H + h) * kb_size + k < ?P * ?K" by simp
      then show ?thesis by (rule nth_truncated)
    qed
    have inner: "map (\<lambda>h. ?flat ! ((b * ?H + h) * kb_size + k)) [0..<?H]
             = map (\<lambda>h. truncated_entry loaded K' kb_size ((b * ?H + h) * kb_size + k)) [0..<?H]"
      if "b < B" "k < kb_size" for b k
      using el[OF that(1) _ that(2)] by simp
    have sm: "sum_axis1 ?W = map ?S [0..<B]"
      by (simp add: sum_axis1_def score_vector_def inner)
    have z1: "map (\<lambda>(s, l). argmax s = l) (zip (map ?S [0..<B]) [0..<B])
        = map (\<lambda>i. argmax (?S i) = i) [0..<B]"
      by (simp add: zip_map_same)
    have z2: "map (\<lambda>(p, l). l \<in> set p) (zip (map topk5 (map ?S [0..<B])) [0..<B])
        = map (\<lambda>i. i \<in> set (topk5 (?S i))) [0..<B]"
      using zip_map_same[of "\<lambda>i. topk5 (?S i)" "[0..<B]"] by (simp add: comp_def)
    show ?thesis
    proof (cases "kb_size < 5")
      case True
      with False show ?thesis
        by (simp only: score_attention_def tr rs Let_def sum.case if_True if_False)
    next
      case k5: False
      with False show ?thesis
        by (simp only: score_attention_def tr rs sm z1 z2 Let_def sum.case if_False)
    qed
  qed
qed

lemma score_vector_plain:
  assumes "kb_size \<le> K'"
  shows "score_vector loaded K' kb_size H i
         = map (\<lambda>k. np_sum (map (\<lambda>h. nd_flat loaded ! ((i * H + h) * K' + k)) [0..<H]))
               [0..<kb_size]"
  using assms by (simp add: score_vector_def truncated_entry_def min_def)

lemma mean_bool_all: "0 < n \<Longrightarrow> mean_bool (map (\<lambda>i. True) [0..<n]) = 1"
  by (simp add: mean_bool_def fl64_of_int[of 1, simplified])

text \<open>
  C1, as the code has it, for an artifact of any shape \<open>ds @ [K']\<close> and any element type.
  The scoring step cuts the last axis to \<open>kb_size\<close> columns and regroups the entries as
  \<open>[B, H, kb_size]\<close>, where \<open>H\<close> is the middle dimension the reshape infers; it raises
  \<^verbatim>\<open>ValueError\<close> when that regrouping is impossible and \<^verbatim>\<open>RuntimeError\<close> (from the top-5
  selection) when \<open>kb_size < 5\<close>. Otherwise it reports as top-1 accuracy the mean over the
  batch rows \<open>i\<close> of (argmax of the score vector of row \<open>i\<close>) = \<open>i\<close>, where the score vector
  is the sum over the middle axis, taken in the element type (rounded additions for a
  float array). When the last axis is not shorter than \<open>kb_size\<close>, the score of column \<open>k\<close>
  in batch row \<open>i\<close> is the sum over \<open>h\<close> of the entries \<open>(i * H + h, k)\<close> of the artifact.
  When the argmax of every batch row's score vector is the row's own index, the reported
  top-1 accuracy is 1.
\<close>

theorem score_attention_top1:
  fixes loaded :: "('a::{linorder,plus,zero}) ndarray"
  assumes "nd_shape loaded = ds @ [K']"
  shows "score_attention topk5 loaded kb_size B =
       (if \<not> reshapeable ds K' kb_size B then Inl ValueError
        else if kb_size < 5 then Inl RuntimeError
        else Inr (mean_bool (map (\<lambda>i. argmax (score_vector loaded K' kb_size
                               (middle_axis ds K' kb_size B) i) = i) [0..<B]),
                  mean_bool (map (\<lambda>i. i \<in> set (topk5 (score_vector loaded K' kb_size
                               (middle_axis ds K' kb_size B) i))) [0..<B])))
     \<and> (kb_size \<le> K' \<longrightarrow>
          score_vector loaded K' kb_size H i
            = map (\<lambda>k. np_sum (map (\<lambda>h. nd_flat loaded ! ((i * H + h) * K' + k)) [0..<H]))
                  [0..<kb_size])
     \<and> (reshapeable ds K' kb_size B \<and> 5 \<le> kb_size
          \<and> (\<forall>i<B. argmax (score_vector loaded K' kb_size (middle_axis ds K' kb_size B) i) = i)
        \<longrightarrow> score_attention topk5 loaded kb_size B =
              Inr (1, mean_bool (map (\<lambda>i. i \<in> set (topk5 (score_vector loaded K' kb_size
                               (middle_axis ds K' kb_size B) i))) [0..<B])))"
proof (intro conjI impI)
  note v = score_attention_value[OF assms, of topk5 kb_size B,
      folded middle_axis_def]
  show a: "score_attention topk5 loaded kb_size B =
       (if \<not> reshapeable ds K' kb_size B then Inl ValueError
        else if kb_size < 5 then Inl RuntimeError
        else Inr (mean_bool (map (\<lambda>i. argmax (score_vector loaded K' kb_size
                               (middle_axis ds K' kb_size B) i) = i) [0..<B]),
                  mean_bool (map (\<lambda>i. i \<in> set (topk5 (score_vector loaded K' kb_size
                               (middle_axis ds K' kb_size B) i))) [0..<B])))"
    using v by (simp add: reshapeable_def del: mult_eq_0_iff)
  show "score_vector loaded K' kb_size H i
            = map (\<lambda>k. np_sum (map (\<lambda>h. nd_flat loaded ! ((i * H + h) * K' + k)) [0..<H]))
                  [0..<kb_size]" if "kb_size \<le> K'"
    using that by (rule score_vector_plain)
  assume h: "reshapeable ds K' kb_size B \<and> 5 \<le> kb_size
          \<and> (\<forall>i<B. argmax (score_vector loaded K' kb_size (middle_axis ds K' kb_size B) i) = i)"
  then have B: "0 < B" by (simp add: reshapeable_def)
  from h have "map (\<lambda>i. argmax (score_vector loaded K' kb_size
                               (middle_axis ds K' kb_size B) i) = i) [0..<B]
             = map (\<lambda>i. True) [0..<B]"
    by simp
  with a h mean_bool_all[OF B]
  show "score_attention topk5 loaded kb_size B =
              Inr (1, mean_bool (map (\<lambda>i. i \<in> set (topk5 (score_vector loaded K' kb_size
                               (middle_axis ds K' kb_size B) i))) [0..<B]))"
    by simp
qed

text \<open>
  The artifact of shape \<open>[4, 2, 4]\<close> whose row \<open>(i, h)\<close> peaks in column \<open>i\<close>, scored with
  \<open>kb_size = 4\<close> and a batch of 4: \<^verbatim>\<open>torch.topk(\<cdot>, 5)\<close> fails on rows of four entries, and no
  accuracy is reported. And a float artifact of shape \<open>[2, 2, 5]\<close> in which every row
  \<open>(i, h)\<close> peaks strictly in column \<open>i\<close>: the two sums of batch row 1 round to the same
  float, the argmax is column 0, and the top-1 accuracy is 0.5. So the peaks that count
  are those of the summed score vectors, not those of the rows of the artifact.
\<close>

theorem score_attention_top1_counterexample:
  "score_attention topk5_sample (diagonal_artifact 4 2 4) 4 4 = Inl RuntimeError
   \<and> strict_peak (head_row tie_artifact 2 5 0 0) 0
   \<and> strict_peak (head_row tie_artifact 2 5 0 1) 0
   \<and> strict_peak (head_row tie_artifact 2 5 1 0) 1
   \<and> strict_peak (head_row tie_artifact 2 5 1 1) 1
   \<and> score_attention topk5_sample tie_artifact 5 2 = Inr (1 / 2, 1)"
  by code_simp

text \<open>The diagonal artifact of shape \<open>[5, 2, 8]\<close> scored with \<open>kb_size = 5\<close> and a batch of 5.\<close>

theorem score_attention_top1_witness:
  "score_attention topk5_sample (diagonal_artifact 5 2 8) 5 5 = Inr (1, 1)"
proof -
  have sh: "nd_shape (diagonal_artifact 5 2 8) = [5, 2] @ [8]"
    by (simp add: diagonal_artifact_def)
  have rs: "reshapeable [5, 2] 8 5 5" by code_simp
  have pk: "argmax (score_vector (diagonal_artifact 5 2 8) 8 5 (middle_axis [5, 2] 8 5 5) i) = i"
    if "i < 5" for i
  proof -
    from that have "i = 0 \<or> i = 1 \<or> i = 2 \<or> i = 3 \<or> i = 4" by auto
    then show ?thesis
      by (elim disjE) (hypsubst, code_simp)+
  qed
  have h: "reshapeable [5, 2] 8 5 5 \<and> (5::nat) \<le> 5
     \<and> (\<forall>i<5. argmax (score_vector (diagonal_artifact 5 2 8) 8 5 (middle_axis [5, 2] 8 5 5) i) = i)"
    using rs pk by simp
  have t5: "mean_bool (map (\<lambda>i. i \<in> set (topk5_sample (score_vector (diagonal_artifact 5 2 8) 8 5
                               (middle_axis [5, 2] 8 5 5) i))) [0..<5]) = 1"
    by code_simp
  from score_attention_top1[OF sh, of topk5_sample 5 5, THEN conjunct2, THEN conjunct2,
      rule_format, OF h]
  show ?thesis by (simp only: t5)
qed

end
